theory Spec2Isabelle
  imports Complex_Main "HOL-Library.Word"
begin

section \<open>Data model of \<open>main.cpp\<close>\<close>

text \<open>
  \<open>struct Block\<close>: \<open>unsigned height\<close>, \<open>QString hash\<close>, \<open>qint64 time\<close>. The
  unsigned height is a 32-bit word read with \<open>unat\<close>, the signed time a 64-bit word
  read with \<open>sint\<close>; word arithmetic wraps around.
\<close>

type_synonym uint = "32 word"
type_synonym qint64 = "64 word"

record Block =
  height :: uint
  hash :: string
  time :: qint64

subsection \<open>QMap and QMultiMap\<close>

text \<open>
  A \<open>QMap\<close> is kept as the list of its entries in iteration order, that is ascending
  by key under the key type's \<open>operator<\<close>, which is passed as \<open>lt\<close>: unsigned
  comparison for \<open>BlockMap\<close>, signed comparison for \<open>BlockTimeMap\<close>. Assigning
  through \<open>operator[]\<close> replaces the value of a key that is neither smaller nor
  larger than the new one. \<open>qmap_find\<close> is the lookup that \<open>contains\<close> and a
  read through \<open>operator[]\<close> perform: \<open>None\<close> when the key is absent.
\<close>

definition lt_uint :: "uint \<Rightarrow> uint \<Rightarrow> bool" where
  "lt_uint a b = (unat a < unat b)"

definition lt_qint64 :: "qint64 \<Rightarrow> qint64 \<Rightarrow> bool" where
  "lt_qint64 a b = (sint a < sint b)"

fun qmap_insert :: "('k \<Rightarrow> 'k \<Rightarrow> bool) \<Rightarrow> 'k \<Rightarrow> 'v \<Rightarrow> ('k \<times> 'v) list \<Rightarrow> ('k \<times> 'v) list" where
  "qmap_insert lt k v [] = [(k, v)]"
| "qmap_insert lt k v ((k', v') # xs) =
     (if lt k k' then (k, v) # (k', v') # xs
      else if lt k' k then (k', v') # qmap_insert lt k v xs
      else (k, v) # xs)"

fun qmap_find :: "('k \<Rightarrow> 'k \<Rightarrow> bool) \<Rightarrow> 'k \<Rightarrow> ('k \<times> 'v) list \<Rightarrow> 'v option" where
  "qmap_find lt k [] = None"
| "qmap_find lt k ((k', v') # xs) =
     (if lt k k' then None
      else if lt k' k then qmap_find lt k xs
      else Some v')"

text \<open>\<open>QMultiMap::insert\<close> puts the new entry in front of the entries of the same key.\<close>

fun qmultimap_insert :: "('k \<Rightarrow> 'k \<Rightarrow> bool) \<Rightarrow> 'k \<Rightarrow> 'v \<Rightarrow> ('k \<times> 'v) list \<Rightarrow> ('k \<times> 'v) list" where
  "qmultimap_insert lt k v [] = [(k, v)]"
| "qmultimap_insert lt k v ((k', v') # xs) =
     (if lt k' k then (k', v') # qmultimap_insert lt k v xs
      else (k, v) # (k', v') # xs)"

subsection \<open>Console output and fatal errors\<close>

text \<open>
  Every \<open>Log(...)\<close> appends one line to the console; the lines are kept with their
  arguments, not rendered. A \<open>Fatal(...)\<close> prints its line and calls
  \<open>std::exit(1)\<close> at once: it is the \<open>Inl\<close> result of the function that raises it.
\<close>

text \<open>
  Floating point is not evaluated. A \<open>double\<close> of the program is kept as the expression
  that computes it, built from the source's floating literals, from integers converted
  to \<open>double\<close>, and from the additions and divisions the source performs on them in
  \<open>double\<close> arithmetic. The console lines that print a \<open>double\<close> hold its
  expression.
\<close>

datatype double_expr =
    D_lit rat
  | D_int int
  | D_add double_expr double_expr
  | D_div double_expr double_expr

datatype Fatal =
    Fatal_NetworkError int
  | Fatal_JsonParse
  | Fatal_BlocksArrayNotFound
  | Fatal_VariantMapEmpty
  | Fatal_ParseError
  | Fatal_UnknownJsonType
  | Fatal_NegativeDelta uint qint64
  | Fatal_CouldNotOpen string

datatype LogLine =
    Log_Connecting int
  | Log_Received int int
  | Log_DupeBlock uint qint64 string qint64 string
  | Log_DupeTimestamp qint64 uint string uint string
  | Log_Got int double_expr
  | Log_AvgTime double_expr double_expr double_expr
  | Log_CraigVsPeterR double_expr double_expr
  | Log_Saved string string
  | Log_Done
  | Log_Fatal Fatal

subsection \<open>The object\<close>

record MainObj =
  NDAYS :: int
  daysLeft :: int
  nDupeTimes :: int
  blocks :: "(uint \<times> Block) list"
  blocksByTime :: "(qint64 \<times> Block) list"
  blocksByTimeMulti :: "(qint64 \<times> Block) list"
  console :: "LogLine list"

text \<open>
  The constructor initialises \<open>NDAYS\<close> only; \<open>daysLeft\<close> and \<open>nDupeTimes\<close> hold
  whatever was in memory, given here as \<open>dl\<close> and \<open>nd\<close>. The counters are C++
  \<open>int\<close>; they are modelled as unbounded integers (they count pages and records, and
  stay far below \<open>2^31\<close>).
\<close>

definition MainObj_new :: "int \<Rightarrow> int \<Rightarrow> int \<Rightarrow> MainObj" where
  "MainObj_new ndays dl nd =
     \<lparr>NDAYS = ndays, daysLeft = dl, nDupeTimes = nd, blocks = [], blocksByTime = [],
      blocksByTimeMulti = [], console = []\<rparr>"

definition Log :: "LogLine \<Rightarrow> MainObj \<Rightarrow> MainObj" where
  "Log l s = s\<lparr>console := console s @ [l]\<rparr>"

section \<open>Fetch loop\<close>

text \<open>
  \<open>getNext\<close>: \<open>now\<close> is \<open>QDateTime::currentMSecsSinceEpoch()\<close>. The result is the
  timestamp put into the request URL and the updated object. \<open>blocksByTime.first()\<close>
  is the value of the smallest key. The network itself is outside the model: a reply
  reaches \<open>finished\<close> below, and a transport error ends the process with
  \<open>Fatal_NetworkError\<close> before that.
\<close>

definition aday_ms :: qint64 where
  "aday_ms = 60 * 60 * 24 * 1000"

definition getNext :: "qint64 \<Rightarrow> MainObj \<Rightarrow> qint64 \<times> MainObj" where
  "getNext now s =
     (let s1 = Log (Log_Received (int (length (blocksByTime s))) (daysLeft s - NDAYS s)) s
      in case blocksByTime s1 of
           (k, b) # rest \<Rightarrow> (time b * 1000 - aday_ms, s1)
         | [] \<Rightarrow> (now, s1\<lparr>nDupeTimes := 0\<rparr>))"

definition appEntry :: "qint64 \<Rightarrow> MainObj \<Rightarrow> qint64 \<times> MainObj" where
  "appEntry now s =
     (let s1 = s\<lparr>daysLeft := NDAYS s\<rparr>;
          s2 = Log (Log_Connecting (daysLeft s1)) s1
      in getNext now s2)"

section \<open>Parser and aggregator\<close>

text \<open>
  The JSON document is seen through the Qt calls \<open>processResults\<close> makes on it. A
  document is an object or not; an object has a \<open>blocks\<close> key or not, and
  \<open>vm["blocks"].toList()\<close> is the list of its elements (empty when the value is not
  an array). For an element \<open>v\<close>, \<open>v.toMap()\<close> is empty (also when \<open>v\<close> is not an
  object), or the element is seen through the results of \<open>toUInt\<close>, \<open>toString\<close>,
  \<open>toLongLong\<close> and \<open>toBool\<close> on its four fields.
\<close>

record JsonBlock =
  j_height :: uint
  ok1 :: bool
  j_hash :: string
  j_time :: qint64
  ok2 :: bool
  main_chain :: bool

datatype PageElement = EmptyVariantMap | BlockObject JsonBlock

datatype JsonDocument = NotAnObject | JsonObject "PageElement list option"

definition insertBlock :: "Block \<Rightarrow> MainObj \<Rightarrow> MainObj" where
  "insertBlock b s =
     (let s1 = (case qmap_find lt_uint (height b) (blocks s) of
                  Some old \<Rightarrow>
                    Log (Log_DupeBlock (height b) (time b) (hash b) (time old) (hash old)) s
                | None \<Rightarrow> s);
          s2 = (case qmap_find lt_qint64 (time b) (blocksByTime s1) of
                  Some old \<Rightarrow>
                    (Log (Log_DupeTimestamp (time b) (height b) (hash b) (height old) (hash old)) s1)
                      \<lparr>nDupeTimes := nDupeTimes s1 + 1\<rparr>
                | None \<Rightarrow> s1)
      in s2\<lparr>blocks := qmap_insert lt_uint (height b) b (blocks s2),
            blocksByTime := qmap_insert lt_qint64 (time b) b (blocksByTime s2),
            blocksByTimeMulti := qmultimap_insert lt_qint64 (time b) b (blocksByTimeMulti s2)\<rparr>)"

text \<open>
  One iteration of the loop over the page. \<open>readBlock\<close> is the \<open>Block b\<close> filled
  from the element; \<open>continue\<close> returns the object unchanged.
\<close>

definition readBlock :: "JsonBlock \<Rightarrow> Block" where
  "readBlock j = \<lparr>height = j_height j, hash = j_hash j, time = j_time j\<rparr>"

fun processElement :: "PageElement \<Rightarrow> MainObj \<Rightarrow> Fatal + MainObj" where
  "processElement EmptyVariantMap s = Inl Fatal_VariantMapEmpty"
| "processElement (BlockObject j) s =
     (let b = readBlock j
      in if \<not> main_chain j then Inr s
         else if \<not> ok1 j \<or> \<not> ok2 j then Inl Fatal_ParseError
         else Inr (insertBlock b s))"

fun processElements :: "PageElement list \<Rightarrow> MainObj \<Rightarrow> Fatal + MainObj" where
  "processElements [] s = Inr s"
| "processElements (v # vl) s =
     (case processElement v s of
        Inl e \<Rightarrow> Inl e
      | Inr s' \<Rightarrow> processElements vl s')"

fun processResults :: "JsonDocument \<Rightarrow> MainObj \<Rightarrow> Fatal + MainObj" where
  "processResults NotAnObject s = Inl Fatal_UnknownJsonType"
| "processResults (JsonObject None) s = Inl Fatal_BlocksArrayNotFound"
| "processResults (JsonObject (Some vl)) s =
     (if vl = [] then Inl Fatal_BlocksArrayNotFound else processElements vl s)"

section \<open>Statistics engine\<close>

text \<open>
  The locals of \<open>printStatsAndExit\<close> that the loop updates. \<open>min\<close>, \<open>max\<close> and
  \<open>last\<close> carry a prime, the plain names being HOL constants. \<open>avg\<close> is a
  \<open>double\<close>. \<open>LONG_MAX\<close> comes from the header \<open>climits\<close> and depends on the platform:
  it is a parameter of the functions below, given as the \<open>qint64\<close> that initialises
  \<open>min\<close>.
\<close>

record StatsAcc =
  avg :: double_expr
  last' :: qint64
  min' :: qint64
  max' :: qint64
  cutoffdeltasums :: qint64
  nsums :: qint64

definition mycutoff :: qint64 where
  "mycutoff = 7 * 60 + 30"

text \<open>The body of the loop for one block \<open>b\<close>, with \<open>nBlocks\<close> fixed before the loop.\<close>

definition statsStep :: "int \<Rightarrow> Block \<Rightarrow> StatsAcc \<Rightarrow> Fatal + StatsAcc" where
  "statsStep nBlocks b a =
     (if - 1 < sint (last' a) then
        (let delta = time b - last' a in
         if sint delta < 0 then Inl (Fatal_NegativeDelta (height b) delta)
         else
           (let a1 = a\<lparr>avg := D_add (avg a)
                                (D_div (D_int (sint delta)) (D_int (if nBlocks > 0 then nBlocks else 1))),
                       min' := (if sint delta < sint (min' a) then delta else min' a),
                       max' := (if sint (max' a) < sint delta then delta else max' a)\<rparr>;
                a2 = (if sint mycutoff \<le> sint delta
                      then a1\<lparr>cutoffdeltasums := cutoffdeltasums a1 + (delta - mycutoff),
                              nsums := nsums a1 + 1\<rparr>
                      else a1)
            in Inr (a2\<lparr>last' := time b\<rparr>)))
      else Inr (a\<lparr>last' := time b\<rparr>))"

fun statsLoop :: "int \<Rightarrow> Block list \<Rightarrow> StatsAcc \<Rightarrow> Fatal + StatsAcc" where
  "statsLoop nBlocks [] a = Inr a"
| "statsLoop nBlocks (b # bs) a =
     (case statsStep nBlocks b a of
        Inl e \<Rightarrow> Inl e
      | Inr a' \<Rightarrow> statsLoop nBlocks bs a')"

definition statsInit :: "qint64 \<Rightarrow> int \<Rightarrow> StatsAcc" where
  "statsInit LONG_MAX ndupes =
     \<lparr>avg = D_lit 0, last' = - 1, min' = (if ndupes \<noteq> 0 then 0 else LONG_MAX), max' = - 1,
      cutoffdeltasums = 0, nsums = 0\<rparr>"

definition nBlocks_of :: "MainObj \<Rightarrow> int" where
  "nBlocks_of s = int (length (blocksByTime s)) + nDupeTimes s"

definition days_of :: "MainObj \<Rightarrow> double_expr" where
  "days_of s =
     (case blocksByTime s of
        [] \<Rightarrow> D_lit 0
      | (k, b) # rest \<Rightarrow>
          D_div (D_div (D_div (D_int (sint (time (snd (last (blocksByTime s))) - time b)))
                   (D_lit 60)) (D_lit 60)) (D_lit 24))"

text \<open>
  The statistics proper: the loop over the values of \<open>blocksByTime\<close> in iteration
  order, from the initial locals.
\<close>

definition computeStats :: "qint64 \<Rightarrow> MainObj \<Rightarrow> Fatal + StatsAcc" where
  "computeStats LONG_MAX s =
     statsLoop (nBlocks_of s) (map snd (blocksByTime s)) (statsInit LONG_MAX (nDupeTimes s))"

text \<open>
  The two lines printed after the loop, with the arguments as the source writes them:
  \<open>avg/60.\<close>, \<open>min/60.\<close>, \<open>max/60.\<close>, then \<open>mycutoff/60.\<close> and
  \<open>double(cutoffdeltasums/double(nsums))/60.\<close>. The last one divides by zero when
  \<open>nsums\<close> is 0.
\<close>

definition statsLines :: "StatsAcc \<Rightarrow> LogLine list" where
  "statsLines a =
     [Log_AvgTime (D_div (avg a) (D_lit 60)) (D_div (D_int (sint (min' a))) (D_lit 60))
        (D_div (D_int (sint (max' a))) (D_lit 60)),
      Log_CraigVsPeterR (D_div (D_int (sint mycutoff)) (D_lit 60))
        (D_div (D_div (D_int (sint (cutoffdeltasums a))) (D_int (sint (nsums a)))) (D_lit 60))]"

section \<open>Exporter\<close>

text \<open>Decimal rendering of \<open>%d\<close> and \<open>%lld\<close>.\<close>

fun digits :: "nat \<Rightarrow> string" where
  "digits n =
     (if n < 10 then [''0123456789'' ! n]
      else digits (n div 10) @ [''0123456789'' ! (n mod 10)])"

declare digits.simps [simp del]

definition decimal :: "int \<Rightarrow> string" where
  "decimal i = (if i < 0 then CHR ''-'' # digits (nat (- i)) else digits (nat i))"

text \<open>
  The height is passed to \<open>%d\<close>, which prints the 32 bits as a signed \<open>int\<close>; the
  hash is copied as it is. A line ends with the newline character, code 10.
\<close>

definition newline :: string where
  "newline = [char_of (10 :: nat)]"

definition rowA :: "Block \<Rightarrow> string" where
  "rowA b = decimal (sint (height b)) @ '','' @ decimal (sint (time b)) @ '','' @ hash b @ newline"

definition rowB :: "Block \<Rightarrow> string" where
  "rowB b = decimal (sint (time b)) @ '','' @ decimal (sint (height b)) @ '','' @ hash b @ newline"

definition fileNameA :: string where
  "fileNameA = ''blocks_sorted_by_height.csv''"

definition fileNameB :: string where
  "fileNameB = ''blocks_sorted_by_timestamp.csv''"

definition headerA :: string where
  "headerA = ''#BlockHeight,BlockTimeUTC,BlockHash'' @ newline"

definition headerB :: string where
  "headerB = ''#BlockTimeUTC,BlockHeight,BlockHash'' @ newline"

text \<open>
  \<open>saveCsv\<close>: \<open>canOpen\<close> tells whether a file can be opened for writing. The result
  is the fatal error if one was raised, the files written, each as its name and the
  lines written to it, in the order of the \<open>write\<close> calls, and the line the function
  prints at its end. Both loops run over \<open>blocks\<close>.
\<close>

definition saveCsv ::
  "(string \<Rightarrow> bool) \<Rightarrow> MainObj \<Rightarrow> Fatal option \<times> (string \<times> string list) list \<times> LogLine list" where
  "saveCsv canOpen s =
     (if \<not> canOpen fileNameA then (Some (Fatal_CouldNotOpen fileNameA), [], [])
      else
        (let f = headerA # map (\<lambda>(k, b). rowA b) (blocks s)
         in if \<not> canOpen fileNameB
            then (Some (Fatal_CouldNotOpen fileNameB), [(fileNameA, f)], [])
            else
              (let f2 = headerB # map (\<lambda>(k, b). rowB b) (blocks s)
               in (None, [(fileNameA, f), (fileNameB, f2)], [Log_Saved fileNameA fileNameB]))))"

section \<open>End of the run\<close>

text \<open>
  How the process ends in \<open>printStatsAndExit\<close>: the exit status, the console, and the
  files written.
\<close>

record Exit =
  exit_status :: int
  exit_console :: "LogLine list"
  exit_files :: "(string \<times> string list) list"

definition printStatsAndExit :: "qint64 \<Rightarrow> (string \<Rightarrow> bool) \<Rightarrow> MainObj \<Rightarrow> Exit" where
  "printStatsAndExit LONG_MAX canOpen s =
     (let s1 = Log (Log_Got (nBlocks_of s) (days_of s)) s
      in case computeStats LONG_MAX s of
           Inl e \<Rightarrow> \<lparr>exit_status = 1, exit_console = console s1 @ [Log_Fatal e], exit_files = []\<rparr>
         | Inr a \<Rightarrow>
             (let c2 = console s1 @ statsLines a
              in case saveCsv canOpen s of
                   (Some e, fs, ls) \<Rightarrow>
                     \<lparr>exit_status = 1, exit_console = c2 @ ls @ [Log_Fatal e], exit_files = fs\<rparr>
                 | (None, fs, ls) \<Rightarrow>
                     \<lparr>exit_status = 0, exit_console = c2 @ ls @ [Log_Done], exit_files = fs\<rparr>))"

text \<open>
  \<open>finished\<close>: \<open>d\<close> is the parsed reply, \<open>None\<close> when \<open>QJsonDocument::fromJson\<close>
  returns a null document. The run goes on with the next request, dies of a fatal
  error of the parser, or ends in \<open>printStatsAndExit\<close>.
\<close>

datatype Step = Request qint64 MainObj | Died Fatal | Exited Exit

definition finished ::
  "qint64 \<Rightarrow> (string \<Rightarrow> bool) \<Rightarrow> qint64 \<Rightarrow> JsonDocument option \<Rightarrow> MainObj \<Rightarrow> Step" where
  "finished LONG_MAX canOpen now d s =
     (case d of
        None \<Rightarrow> Died Fatal_JsonParse
      | Some doc \<Rightarrow>
          (case processResults doc s of
             Inl e \<Rightarrow> Died e
           | Inr s1 \<Rightarrow>
               (let s2 = s1\<lparr>daysLeft := daysLeft s1 - 1\<rparr>
                in if daysLeft s2 > 0 then (case getNext now s2 of (ts, s3) \<Rightarrow> Request ts s3)
                   else Exited (printStatsAndExit LONG_MAX canOpen s2))))"

section \<open>Notions used in the properties\<close>

text \<open>The comparison of a \<open>QMap\<close> key type is a strict linear order.\<close>

definition strict_linear :: "('k \<Rightarrow> 'k \<Rightarrow> bool) \<Rightarrow> bool" where
  "strict_linear lt \<longleftrightarrow>
     (\<forall>a. \<not> lt a a) \<and> (\<forall>a b c. lt a b \<longrightarrow> lt b c \<longrightarrow> lt a c) \<and>
     (\<forall>a b. lt a b \<or> a = b \<or> lt b a)"

text \<open>
  The invariant of the two indexes: the entries are in strictly ascending key order, and
  every entry is filed under its own height, respectively its own time.
\<close>

definition index_ok :: "MainObj \<Rightarrow> bool" where
  "index_ok s \<longleftrightarrow>
     sorted_wrt lt_qint64 (map fst (blocksByTime s)) \<and>
     (\<forall>e\<in>set (blocksByTime s). time (snd e) = fst e) \<and>
     sorted_wrt lt_uint (map fst (blocks s)) \<and>
     (\<forall>e\<in>set (blocks s). height (snd e) = fst e)"

text \<open>An element that is an object whose \<open>main_chain\<close> reads false.\<close>

fun side_chain :: "PageElement \<Rightarrow> bool" where
  "side_chain EmptyVariantMap = False"
| "side_chain (BlockObject j) = (\<not> main_chain j)"

text \<open>A main-chain record whose height and time parse.\<close>

definition main_record :: "JsonBlock \<Rightarrow> bool" where
  "main_record j \<longleftrightarrow> main_chain j \<and> ok1 j \<and> ok2 j"

text \<open>
  The deltas the statistics loop computes over the blocks \<open>bs\<close> when \<open>last\<close> is \<open>l\<close>
  on entry: one for every block that follows a value of \<open>last\<close> above \<open>-1\<close>.
\<close>

fun deltas :: "qint64 \<Rightarrow> Block list \<Rightarrow> qint64 list" where
  "deltas l [] = []"
| "deltas l (b # bs) = (if - 1 < sint l then [time b - l] else []) @ deltas (time b) bs"

text \<open>
  The deltas of the pass over the by-time index, as signed numbers, and the timestamps
  of the index in its order.
\<close>

definition pass_deltas :: "MainObj \<Rightarrow> int list" where
  "pass_deltas s = map sint (deltas (- 1) (map snd (blocksByTime s)))"

definition timestamps :: "MainObj \<Rightarrow> int list" where
  "timestamps s = map (\<lambda>e. sint (fst e)) (blocksByTime s)"

text \<open>The gaps between consecutive timestamps, and those that follow a timestamp \<open>\<ge> 0\<close>.\<close>

fun gaps :: "int list \<Rightarrow> int list" where
  "gaps (x # y # ts) = (y - x) # gaps (y # ts)"
| "gaps ts = []"

fun gaps_from_epoch :: "int list \<Rightarrow> int list" where
  "gaps_from_epoch (x # y # ts) = (if 0 \<le> x then [y - x] else []) @ gaps_from_epoch (y # ts)"
| "gaps_from_epoch ts = []"

text \<open>
  The cutoff statistic over a list of deltas, as the specification words it: the sum of
  \<open>delta - 450\<close> over the deltas that are at least 450, and the number of those deltas.
\<close>

definition overage_sum :: "int list \<Rightarrow> int" where
  "overage_sum ds = sum_list (map (\<lambda>d. d - 450) (filter (\<lambda>d. 450 \<le> d) ds))"

definition overage_count :: "int list \<Rightarrow> int" where
  "overage_count ds = int (length (filter (\<lambda>d. 450 \<le> d) ds))"

text \<open>
  The value a \<open>double\<close> expression has in exact arithmetic, that is without the
  rounding of floating point; none when it divides by zero.
\<close>

fun exact_value :: "double_expr \<Rightarrow> rat option" where
  "exact_value (D_lit r) = Some r"
| "exact_value (D_int i) = Some (of_int i)"
| "exact_value (D_add x y) =
     (case (exact_value x, exact_value y) of
        (Some u, Some v) \<Rightarrow> Some (u + v)
      | _ \<Rightarrow> None)"
| "exact_value (D_div x y) =
     (case (exact_value x, exact_value y) of
        (Some u, Some v) \<Rightarrow> if v = 0 then None else Some (u / v)
      | _ \<Rightarrow> None)"

text \<open>
  The accumulation \<open>avg += double(delta) / double(n)\<close> over the deltas \<open>ds\<close>, from
  the expression \<open>x\<close>.
\<close>

fun avg_sum :: "int \<Rightarrow> double_expr \<Rightarrow> int list \<Rightarrow> double_expr" where
  "avg_sum n x [] = x"
| "avg_sum n x (d # ds) = avg_sum n (D_add x (D_div (D_int d) (D_int n))) ds"

definition arithmetic_mean :: "int list \<Rightarrow> rat" where
  "arithmetic_mean ds = of_int (sum_list ds) / of_int (int (length ds))"

text \<open>A key of the index that no other key is below, in signed comparison.\<close>

definition earliest :: "qint64 \<Rightarrow> (qint64 \<times> Block) list \<Rightarrow> bool" where
  "earliest t xs \<longleftrightarrow> t \<in> fst ` set xs \<and> (\<forall>k\<in>fst ` set xs. sint t \<le> sint k)"

text \<open>
  File B as the specification words it: the header row, then one row per entry of the
  by-time index, in the order of the index.
\<close>

definition fileB_spec :: "MainObj \<Rightarrow> string list" where
  "fileB_spec s = headerB # map (\<lambda>(k, b). rowB b) (blocksByTime s)"

text \<open>The content of file B among the files written, if it was written.\<close>

definition lookup_fileB :: "(string \<times> string list) list \<Rightarrow> string list option" where
  "lookup_fileB fs = map_of fs fileNameB"

text \<open>The console lines that report a duplicate height.\<close>

fun isDupeBlock :: "LogLine \<Rightarrow> bool" where
  "isDupeBlock (Log_DupeBlock h t hs t' hs') = True"
| "isDupeBlock l = False"

section \<open>Example inputs\<close>

text \<open>\<open>LONG_MAX\<close> where \<open>long\<close> has 64 bits, and where it has 32.\<close>

definition LONG_MAX_64 :: qint64 where
  "LONG_MAX_64 = 9223372036854775807"

definition LONG_MAX_32 :: qint64 where
  "LONG_MAX_32 = 2147483647"

text \<open>The object after \<open>appEntry\<close>, for a run over three days.\<close>

definition ex_start :: MainObj where
  "ex_start = snd (appEntry 1500000000000 (MainObj_new 3 0 0))"

text \<open>A main-chain record whose fields parse.\<close>

definition ex_record :: "uint \<Rightarrow> string \<Rightarrow> qint64 \<Rightarrow> JsonBlock" where
  "ex_record h hs t =
     \<lparr>j_height = h, ok1 = True, j_hash = hs, j_time = t, ok2 = True, main_chain = True\<rparr>"

text \<open>A record off the main chain whose height and time do not parse.\<close>

definition ex_side :: JsonBlock where
  "ex_side = \<lparr>j_height = 0, ok1 = False, j_hash = ''cc'', j_time = 0, ok2 = False,
     main_chain = False\<rparr>"

text \<open>A main-chain record whose height does not parse.\<close>

definition ex_unparsed :: JsonBlock where
  "ex_unparsed = \<lparr>j_height = 0, ok1 = False, j_hash = ''dd'', j_time = 1500000600, ok2 = True,
     main_chain = True\<rparr>"

text \<open>
  A page of two main-chain blocks, and the object after \<open>processResults\<close> has run on
  it from \<open>ex_start\<close>.
\<close>

definition ex_page :: "PageElement list" where
  "ex_page = [BlockObject (ex_record 2 ''bb'' 1500000600), BlockObject (ex_record 1 ''aa'' 1500000000)]"

definition ex_after_page :: MainObj where
  "ex_after_page =
     \<lparr>NDAYS = 3, daysLeft = 3, nDupeTimes = 0,
      blocks = [(1, \<lparr>height = 1, hash = ''aa'', time = 1500000000\<rparr>),
                (2, \<lparr>height = 2, hash = ''bb'', time = 1500000600\<rparr>)],
      blocksByTime = [(1500000000, \<lparr>height = 1, hash = ''aa'', time = 1500000000\<rparr>),
                      (1500000600, \<lparr>height = 2, hash = ''bb'', time = 1500000600\<rparr>)],
      blocksByTimeMulti = [(1500000000, \<lparr>height = 1, hash = ''aa'', time = 1500000000\<rparr>),
                           (1500000600, \<lparr>height = 2, hash = ''bb'', time = 1500000600\<rparr>)],
      console = [Log_Connecting 3, Log_Received 0 0]\<rparr>"

text \<open>
  A page on which the higher block carries the earlier timestamp, and the object after
  \<open>processResults\<close> has run on it from \<open>ex_start\<close>.
\<close>

definition ex_page_swapped :: "PageElement list" where
  "ex_page_swapped =
     [BlockObject (ex_record 2 ''bb'' 1500000000), BlockObject (ex_record 1 ''aa'' 1500000600)]"

definition ex_after_swapped :: MainObj where
  "ex_after_swapped =
     \<lparr>NDAYS = 3, daysLeft = 3, nDupeTimes = 0,
      blocks = [(1, \<lparr>height = 1, hash = ''aa'', time = 1500000600\<rparr>),
                (2, \<lparr>height = 2, hash = ''bb'', time = 1500000000\<rparr>)],
      blocksByTime = [(1500000000, \<lparr>height = 2, hash = ''bb'', time = 1500000000\<rparr>),
                      (1500000600, \<lparr>height = 1, hash = ''aa'', time = 1500000600\<rparr>)],
      blocksByTimeMulti = [(1500000000, \<lparr>height = 2, hash = ''bb'', time = 1500000000\<rparr>),
                           (1500000600, \<lparr>height = 1, hash = ''aa'', time = 1500000600\<rparr>)],
      console = [Log_Connecting 3, Log_Received 0 0]\<rparr>"

text \<open>
  A page with two blocks of the same time and a third one ten minutes later, and the
  object after \<open>processResults\<close> has run on it from \<open>ex_start\<close>.
\<close>

definition ex_page_dupe :: "PageElement list" where
  "ex_page_dupe =
     [BlockObject (ex_record 3 ''cc'' 1500000600), BlockObject (ex_record 2 ''bb'' 1500000000),
      BlockObject (ex_record 1 ''aa'' 1500000000)]"

definition ex_after_dupe :: MainObj where
  "ex_after_dupe =
     \<lparr>NDAYS = 3, daysLeft = 3, nDupeTimes = 1,
      blocks = [(1, \<lparr>height = 1, hash = ''aa'', time = 1500000000\<rparr>),
                (2, \<lparr>height = 2, hash = ''bb'', time = 1500000000\<rparr>),
                (3, \<lparr>height = 3, hash = ''cc'', time = 1500000600\<rparr>)],
      blocksByTime = [(1500000000, \<lparr>height = 1, hash = ''aa'', time = 1500000000\<rparr>),
                      (1500000600, \<lparr>height = 3, hash = ''cc'', time = 1500000600\<rparr>)],
      blocksByTimeMulti = [(1500000000, \<lparr>height = 1, hash = ''aa'', time = 1500000000\<rparr>),
                           (1500000000, \<lparr>height = 2, hash = ''bb'', time = 1500000000\<rparr>),
                           (1500000600, \<lparr>height = 3, hash = ''cc'', time = 1500000600\<rparr>)],
      console = [Log_Connecting 3, Log_Received 0 0,
                 Log_DupeTimestamp 1500000000 1 ''aa'' 2 ''bb'']\<rparr>"

text \<open>A page with a single block, and the object after it.\<close>

definition ex_page_single :: "PageElement list" where
  "ex_page_single = [BlockObject (ex_record 1 ''aa'' 1500000000)]"

definition ex_after_single :: MainObj where
  "ex_after_single =
     \<lparr>NDAYS = 3, daysLeft = 3, nDupeTimes = 0,
      blocks = [(1, \<lparr>height = 1, hash = ''aa'', time = 1500000000\<rparr>)],
      blocksByTime = [(1500000000, \<lparr>height = 1, hash = ''aa'', time = 1500000000\<rparr>)],
      blocksByTimeMulti = [(1500000000, \<lparr>height = 1, hash = ''aa'', time = 1500000000\<rparr>)],
      console = [Log_Connecting 3, Log_Received 0 0]\<rparr>"

text \<open>
  An object whose by-time list is out of order, the later block first. The aggregator
  never builds it; it is what the defensive check of the statistics loop is there for.
\<close>

definition ex_unordered :: MainObj where
  "ex_unordered =
     ex_after_page\<lparr>blocksByTime :=
       [(1500000600, \<lparr>height = 2, hash = ''bb'', time = 1500000600\<rparr>),
        (1500000000, \<lparr>height = 1, hash = ''aa'', time = 1500000000\<rparr>)]\<rparr>"

text \<open>
  Three blocks with ascending heights and times, ten and then five minutes apart, and the
  object after \<open>processResults\<close> has run on them from \<open>ex_start\<close>.
\<close>

definition ex_three :: "JsonBlock list" where
  "ex_three =
     [ex_record 1 ''aa'' 1500000000, ex_record 2 ''bb'' 1500000600, ex_record 3 ''cc'' 1500000900]"

definition ex_after_three :: MainObj where
  "ex_after_three =
     \<lparr>NDAYS = 3, daysLeft = 3, nDupeTimes = 0,
      blocks = [(1, \<lparr>height = 1, hash = ''aa'', time = 1500000000\<rparr>),
                (2, \<lparr>height = 2, hash = ''bb'', time = 1500000600\<rparr>),
                (3, \<lparr>height = 3, hash = ''cc'', time = 1500000900\<rparr>)],
      blocksByTime = [(1500000000, \<lparr>height = 1, hash = ''aa'', time = 1500000000\<rparr>),
                      (1500000600, \<lparr>height = 2, hash = ''bb'', time = 1500000600\<rparr>),
                      (1500000900, \<lparr>height = 3, hash = ''cc'', time = 1500000900\<rparr>)],
      blocksByTimeMulti = [(1500000000, \<lparr>height = 1, hash = ''aa'', time = 1500000000\<rparr>),
                           (1500000600, \<lparr>height = 2, hash = ''bb'', time = 1500000600\<rparr>),
                           (1500000900, \<lparr>height = 3, hash = ''cc'', time = 1500000900\<rparr>)],
      console = [Log_Connecting 3, Log_Received 0 0]\<rparr>"

text \<open>
  A page of two main-chain blocks, the earlier one with the time \<open>-1\<close>, the later one
  900 seconds after it, and the object after \<open>processResults\<close> has run on it from
  \<open>ex_start\<close>.
\<close>

definition ex_page_negative :: "PageElement list" where
  "ex_page_negative =
     [BlockObject (ex_record 2 ''bb'' 899), BlockObject (ex_record 1 ''aa'' (- 1))]"

definition ex_after_negative :: MainObj where
  "ex_after_negative =
     \<lparr>NDAYS = 3, daysLeft = 3, nDupeTimes = 0,
      blocks = [(1, \<lparr>height = 1, hash = ''aa'', time = - 1\<rparr>),
                (2, \<lparr>height = 2, hash = ''bb'', time = 899\<rparr>)],
      blocksByTime = [(- 1, \<lparr>height = 1, hash = ''aa'', time = - 1\<rparr>),
                      (899, \<lparr>height = 2, hash = ''bb'', time = 899\<rparr>)],
      blocksByTimeMulti = [(- 1, \<lparr>height = 1, hash = ''aa'', time = - 1\<rparr>),
                           (899, \<lparr>height = 2, hash = ''bb'', time = 899\<rparr>)],
      console = [Log_Connecting 3, Log_Received 0 0]\<rparr>"

section \<open>The ordered maps\<close>

lemma sint_inj: "sint (a::'a::len word) = sint b \<Longrightarrow> a = b"
  by (rule signed_word_eqI) simp

lemma strict_linear_lt_qint64: "strict_linear lt_qint64"
  unfolding strict_linear_def lt_qint64_def
  by (auto dest: sint_inj)

lemma strict_linear_lt_uint: "strict_linear lt_uint"
  unfolding strict_linear_def lt_uint_def
  by (auto simp: word_unat_eq_iff)

lemma strict_linearD:
  assumes "strict_linear lt"
  shows "\<not> lt a a" and "lt a b \<Longrightarrow> lt b c \<Longrightarrow> lt a c" and "\<not> lt a b \<Longrightarrow> \<not> lt b a \<Longrightarrow> a = b"
    and "lt a b \<Longrightarrow> \<not> lt b a" and "lt a b \<Longrightarrow> a \<noteq> b"
  using assms unfolding strict_linear_def by blast+

lemma length_qmap_insert:
  "length (qmap_insert lt k v xs) =
     (case qmap_find lt k xs of None \<Rightarrow> Suc (length xs) | Some old \<Rightarrow> length xs)"
  by (induction xs) (auto split: option.splits if_splits)

lemma set_qmap_insert: "set (qmap_insert lt k v xs) \<subseteq> insert (k, v) (set xs)"
  by (induction xs) (auto split: if_splits)

lemma keys_qmap_insert:
  assumes "strict_linear lt"
  shows "fst ` set (qmap_insert lt k v xs) = insert k (fst ` set xs)"
proof (induction xs)
  case Nil
  show ?case by simp
next
  case (Cons e xs)
  obtain k' v' where e: "e = (k', v')" by (cases e)
  show ?case
  proof (cases "lt k k'")
    case True
    then show ?thesis by (simp add: e)
  next
    case nlt: False
    show ?thesis
    proof (cases "lt k' k")
      case True
      with nlt Cons.IH show ?thesis by (auto simp: e)
    next
      case False
      with nlt have "k = k'" by (rule strict_linearD(3) [OF assms])
      with nlt False show ?thesis by (simp add: e)
    qed
  qed
qed

lemma sorted_qmap_insert:
  assumes sl: "strict_linear lt"
  shows "sorted_wrt lt (map fst xs) \<Longrightarrow> sorted_wrt lt (map fst (qmap_insert lt k v xs))"
proof (induction xs)
  case Nil
  show ?case by simp
next
  case (Cons e xs)
  obtain k' v' where e: "e = (k', v')" by (cases e)
  from Cons.prems have tl: "sorted_wrt lt (map fst xs)" and hd: "\<forall>x\<in>set xs. lt k' (fst x)"
    by (auto simp: e)
  show ?case
  proof (cases "lt k k'")
    case True
    have "\<forall>x\<in>set xs. lt k (fst x)"
      using hd True strict_linearD(2) [OF sl] by blast
    with True Cons.prems show ?thesis by (simp add: e)
  next
    case nlt: False
    show ?thesis
    proof (cases "lt k' k")
      case True
      have "\<forall>x\<in>fst ` set (qmap_insert lt k v xs). lt k' x"
        unfolding keys_qmap_insert [OF sl] using hd True by auto
      with nlt True Cons.IH [OF tl] show ?thesis by (simp add: e)
    next
      case False
      with nlt have "k = k'" by (rule strict_linearD(3) [OF sl])
      with nlt False Cons.prems show ?thesis by (simp add: e)
    qed
  qed
qed

lemma map_of_qmap_insert:
  assumes sl: "strict_linear lt"
  shows "map_of (qmap_insert lt k v xs) = (map_of xs)(k \<mapsto> v)"
proof (induction xs)
  case Nil
  show ?case by simp
next
  case (Cons e xs)
  obtain k' v' where e: "e = (k', v')" by (cases e)
  show ?case
  proof (cases "lt k k'")
    case True
    then show ?thesis by (auto simp: e fun_upd_def)
  next
    case nlt: False
    show ?thesis
    proof (cases "lt k' k")
      case True
      then have "k' \<noteq> k" by (rule strict_linearD(5) [OF sl])
      with nlt True Cons.IH show ?thesis by (auto simp: e fun_eq_iff)
    next
      case False
      with nlt have "k = k'" by (rule strict_linearD(3) [OF sl])
      with nlt False show ?thesis by (auto simp: e fun_eq_iff)
    qed
  qed
qed

lemma qmap_find_map_of:
  assumes sl: "strict_linear lt"
  shows "sorted_wrt lt (map fst xs) \<Longrightarrow> qmap_find lt k xs = map_of xs k"
proof (induction xs)
  case Nil
  show ?case by simp
next
  case (Cons e xs)
  obtain k' v' where e: "e = (k', v')" by (cases e)
  from Cons.prems have tl: "sorted_wrt lt (map fst xs)" and hd: "\<forall>x\<in>set xs. lt k' (fst x)"
    by (auto simp: e)
  show ?case
  proof (cases "lt k k'")
    case True
    then have "k \<noteq> k'" by (rule strict_linearD(5) [OF sl])
    moreover have "k \<notin> fst ` set xs"
    proof
      assume "k \<in> fst ` set xs"
      with hd have "lt k' k" by auto
      with True show False using strict_linearD(4) [OF sl] by blast
    qed
    then have "map_of xs k = None" by (simp add: map_of_eq_None_iff)
    ultimately show ?thesis using True by (simp add: e)
  next
    case nlt: False
    show ?thesis
    proof (cases "lt k' k")
      case True
      then have "k' \<noteq> k" by (rule strict_linearD(5) [OF sl])
      with nlt True Cons.IH [OF tl] show ?thesis by (simp add: e)
    next
      case False
      with nlt have "k = k'" by (rule strict_linearD(3) [OF sl])
      with nlt False show ?thesis by (simp add: e)
    qed
  qed
qed

lemma sorted_wrt_distinct:
  assumes sl: "strict_linear lt"
  shows "sorted_wrt lt ks \<Longrightarrow> distinct ks"
  by (induction ks) (auto dest: strict_linearD(5) [OF sl])

lemma qmap_insert_append:
  assumes sl: "strict_linear lt"
  shows "\<forall>x\<in>set xs. lt (fst x) k \<Longrightarrow> qmap_insert lt k v xs = xs @ [(k, v)]"
proof (induction xs)
  case Nil
  show ?case by simp
next
  case (Cons e xs)
  obtain k' v' where e: "e = (k', v')" by (cases e)
  from Cons.prems have "lt k' k" by (simp add: e)
  moreover from this have "\<not> lt k k'" by (rule strict_linearD(4) [OF sl])
  ultimately show ?case using Cons by (simp add: e)
qed

lemma qmap_find_None_above:
  assumes sl: "strict_linear lt"
  shows "\<forall>x\<in>set xs. lt (fst x) k \<Longrightarrow> qmap_find lt k xs = None"
proof (induction xs)
  case Nil
  show ?case by simp
next
  case (Cons e xs)
  obtain k' v' where e: "e = (k', v')" by (cases e)
  from Cons.prems have "lt k' k" by (simp add: e)
  moreover from this have "\<not> lt k k'" by (rule strict_linearD(4) [OF sl])
  ultimately show ?case using Cons by (simp add: e)
qed

section \<open>The aggregator keeps the indexes in order\<close>

lemma blocksByTime_insertBlock:
  "blocksByTime (insertBlock b s) = qmap_insert lt_qint64 (time b) b (blocksByTime s)"
  by (simp add: insertBlock_def Log_def Let_def split: option.splits)

lemma blocks_insertBlock:
  "blocks (insertBlock b s) = qmap_insert lt_uint (height b) b (blocks s)"
  by (simp add: insertBlock_def Log_def Let_def split: option.splits)

lemma nDupeTimes_insertBlock:
  "nDupeTimes (insertBlock b s) =
     (case qmap_find lt_qint64 (time b) (blocksByTime s) of
        None \<Rightarrow> nDupeTimes s | Some old \<Rightarrow> nDupeTimes s + 1)"
  by (simp add: insertBlock_def Log_def Let_def split: option.splits)

lemma console_insertBlock:
  "console (insertBlock b s) =
     console s @
     (case qmap_find lt_uint (height b) (blocks s) of
        None \<Rightarrow> []
      | Some old \<Rightarrow> [Log_DupeBlock (height b) (time b) (hash b) (time old) (hash old)]) @
     (case qmap_find lt_qint64 (time b) (blocksByTime s) of
        None \<Rightarrow> []
      | Some old \<Rightarrow> [Log_DupeTimestamp (time b) (height b) (hash b) (height old) (hash old)])"
  by (simp add: insertBlock_def Log_def Let_def split: option.splits)

lemma index_ok_new: "index_ok (MainObj_new ndays dl nd)"
  by (simp add: index_ok_def MainObj_new_def)

lemma index_ok_insertBlock:
  assumes "index_ok s"
  shows "index_ok (insertBlock b s)"
proof -
  have "sorted_wrt lt_qint64 (map fst (blocksByTime (insertBlock b s)))"
    using assms unfolding blocksByTime_insertBlock index_ok_def
    by (simp add: sorted_qmap_insert [OF strict_linear_lt_qint64])
  moreover have "\<forall>e\<in>set (blocksByTime (insertBlock b s)). time (snd e) = fst e"
    using assms set_qmap_insert [of lt_qint64 "time b" b "blocksByTime s"]
    unfolding blocksByTime_insertBlock index_ok_def by auto
  moreover have "sorted_wrt lt_uint (map fst (blocks (insertBlock b s)))"
    using assms unfolding blocks_insertBlock index_ok_def
    by (simp add: sorted_qmap_insert [OF strict_linear_lt_uint])
  moreover have "\<forall>e\<in>set (blocks (insertBlock b s)). height (snd e) = fst e"
    using assms set_qmap_insert [of lt_uint "height b" b "blocks s"]
    unfolding blocks_insertBlock index_ok_def by auto
  ultimately show ?thesis unfolding index_ok_def by blast
qed

lemma index_ok_processElement:
  "index_ok s \<Longrightarrow> processElement v s = Inr s' \<Longrightarrow> index_ok s'"
  by (cases v) (auto simp: Let_def index_ok_insertBlock split: if_splits)

lemma index_ok_processElements:
  "index_ok s \<Longrightarrow> processElements vl s = Inr s' \<Longrightarrow> index_ok s'"
proof (induction vl arbitrary: s)
  case Nil
  then show ?case by simp
next
  case (Cons v vl)
  then show ?case
    by (auto split: sum.splits dest: index_ok_processElement)
qed

lemma index_ok_processResults:
  "index_ok s \<Longrightarrow> processResults d s = Inr s' \<Longrightarrow> index_ok s'"
  by (cases "(d, s)" rule: processResults.cases)
     (auto split: if_splits dest: index_ok_processElements)

lemma index_ok_getNext: "index_ok s \<Longrightarrow> index_ok (snd (getNext now s))"
  by (cases "blocksByTime s") (auto simp: getNext_def Log_def Let_def index_ok_def)

text \<open>
  So the invariant holds of every object of a run: of the one \<open>appEntry\<close> leaves, and
  of the one each \<open>finished\<close> hands to the next request.
\<close>

lemma index_ok_appEntry: "index_ok (snd (appEntry now (MainObj_new ndays dl nd)))"
  by (simp add: appEntry_def getNext_def MainObj_new_def Log_def Let_def index_ok_def)

lemma index_ok_finished:
  assumes "index_ok s" and "finished LONG_MAX canOpen now d s = Request ts s'"
  shows "index_ok s'"
proof -
  from assms(2) obtain doc s1 where p: "processResults doc s = Inr s1"
    and g: "getNext now (s1\<lparr>daysLeft := daysLeft s1 - 1\<rparr>) = (ts, s')"
    by (auto simp: finished_def Let_def split: option.splits sum.splits if_splits prod.splits)
  have "index_ok (s1\<lparr>daysLeft := daysLeft s1 - 1\<rparr>)"
    using index_ok_processResults [OF assms(1) p] by (simp add: index_ok_def)
  then have "index_ok (snd (getNext now (s1\<lparr>daysLeft := daysLeft s1 - 1\<rparr>)))"
    by (rule index_ok_getNext)
  with g show ?thesis by simp
qed

lemma processElements_side_chain:
  "\<forall>v\<in>set vl. side_chain v \<Longrightarrow> processElements vl s = Inr s"
proof (induction vl)
  case Nil
  show ?case by simp
next
  case (Cons v vl)
  then obtain j where "v = BlockObject j" "\<not> main_chain j"
    by (cases v) auto
  with Cons show ?case by simp
qed

lemma processElements_ParseError:
  "processElements vl s = Inl Fatal_ParseError \<Longrightarrow>
     \<exists>j. BlockObject j \<in> set vl \<and> main_chain j \<and> (\<not> ok1 j \<or> \<not> ok2 j)"
proof (induction vl arbitrary: s)
  case Nil
  then show ?case by simp
next
  case (Cons v vl)
  show ?case
  proof (cases "processElement v s")
    case (Inl e)
    with Cons.prems have "processElement v s = Inl Fatal_ParseError" by simp
    then obtain j where "v = BlockObject j" "main_chain j" "\<not> ok1 j \<or> \<not> ok2 j"
      by (cases v) (auto simp: Let_def split: if_splits)
    then show ?thesis by auto
  next
    case (Inr s')
    with Cons.prems have "processElements vl s' = Inl Fatal_ParseError" by simp
    from Cons.IH [OF this] show ?thesis by auto
  qed
qed

lemma ex_start_eq:
  "ex_start = \<lparr>NDAYS = 3, daysLeft = 3, nDupeTimes = 0, blocks = [], blocksByTime = [],
      blocksByTimeMulti = [], console = [Log_Connecting 3, Log_Received 0 0]\<rparr>"
  by (simp add: ex_start_def appEntry_def getNext_def MainObj_new_def Log_def Let_def)

section \<open>Pages of side-chain records\<close>

text \<open>
  Claim C4. A page whose \<open>blocks\<close> array holds only objects with \<open>main_chain\<close> false
  does not fail unless the array is empty: every element is skipped and the object comes
  back unchanged, indexes, counter and console included. An absent or empty array is
  fatal. After a non-empty page of this kind \<open>finished\<close> goes on: to the next request
  while days are left, to the statistics otherwise.
\<close>

theorem side_chain_page_not_fatal:
  assumes "\<forall>v\<in>set vl. side_chain v"
  shows "processResults (JsonObject (Some vl)) s =
           (if vl = [] then Inl Fatal_BlocksArrayNotFound else Inr s) \<and>
         processResults (JsonObject None) s = Inl Fatal_BlocksArrayNotFound \<and>
         (vl \<noteq> [] \<longrightarrow>
            finished LONG_MAX canOpen now (Some (JsonObject (Some vl))) s =
              (let s2 = s\<lparr>daysLeft := daysLeft s - 1\<rparr>
               in if daysLeft s2 > 0 then Request (fst (getNext now s2)) (snd (getNext now s2))
                  else Exited (printStatsAndExit LONG_MAX canOpen s2)))"
  using processElements_side_chain [OF assms, of s]
  by (simp add: finished_def Let_def split: prod.splits)

theorem side_chain_page_not_fatal_witness:
  "side_chain (BlockObject ex_side) \<and>
   processResults (JsonObject (Some [BlockObject ex_side, BlockObject ex_side])) ex_start
     = Inr ex_start \<and>
   (\<exists>ts s'. finished LONG_MAX_64 (\<lambda>f. True) 1500000100000
               (Some (JsonObject (Some [BlockObject ex_side, BlockObject ex_side]))) ex_start
             = Request ts s')"
  using side_chain_page_not_fatal
    [of "[BlockObject ex_side, BlockObject ex_side]" ex_start LONG_MAX_64 "\<lambda>f. True"
        1500000100000]
  by (simp add: ex_side_def ex_start_eq Let_def)

text \<open>
  Claim C10. The test of \<open>main_chain\<close> comes before the test of the two parse flags:
  an element whose \<open>main_chain\<close> is false is skipped whatever \<open>ok1\<close> and \<open>ok2\<close> are,
  and a page or an element that ends in the fatal parse error holds a main-chain element
  whose height or time did not parse.
\<close>

theorem skip_before_parse_check:
  "(\<not> main_chain j \<longrightarrow> processElement (BlockObject j) s = Inr s) \<and>
   (processElement v s = Inl Fatal_ParseError \<longrightarrow>
      (\<exists>j'. v = BlockObject j' \<and> main_chain j' \<and> (\<not> ok1 j' \<or> \<not> ok2 j'))) \<and>
   (processResults d s = Inl Fatal_ParseError \<longrightarrow>
      (\<exists>vl j'. d = JsonObject (Some vl) \<and> BlockObject j' \<in> set vl \<and> main_chain j' \<and>
         (\<not> ok1 j' \<or> \<not> ok2 j')))"
proof (intro conjI impI)
  assume "\<not> main_chain j"
  then show "processElement (BlockObject j) s = Inr s" by simp
next
  assume "processElement v s = Inl Fatal_ParseError"
  then show "\<exists>j'. v = BlockObject j' \<and> main_chain j' \<and> (\<not> ok1 j' \<or> \<not> ok2 j')"
    by (cases v) (auto simp: Let_def split: if_splits)
next
  assume a: "processResults d s = Inl Fatal_ParseError"
  then obtain vl where d: "d = JsonObject (Some vl)" and "vl \<noteq> []"
    by (cases "(d, s)" rule: processResults.cases) (auto split: if_splits)
  with a have "processElements vl s = Inl Fatal_ParseError" by simp
  from processElements_ParseError [OF this] d
  show "\<exists>vl j'. d = JsonObject (Some vl) \<and> BlockObject j' \<in> set vl \<and> main_chain j' \<and>
         (\<not> ok1 j' \<or> \<not> ok2 j')" by blast
qed

theorem skip_before_parse_check_witness:
  "\<not> main_chain ex_side \<and> \<not> ok1 ex_side \<and>
   processElement (BlockObject ex_side) ex_start = Inr ex_start \<and>
   processResults (JsonObject (Some [BlockObject ex_side, BlockObject ex_unparsed])) ex_start
     = Inl Fatal_ParseError \<and>
   (\<exists>vl j'. JsonObject (Some [BlockObject ex_side, BlockObject ex_unparsed]) = JsonObject (Some vl) \<and>
      BlockObject j' \<in> set vl \<and> main_chain j' \<and> (\<not> ok1 j' \<or> \<not> ok2 j'))"
  using skip_before_parse_check
    [of ex_side ex_start "BlockObject ex_unparsed"
        "JsonObject (Some [BlockObject ex_side, BlockObject ex_unparsed])"]
  by (simp add: ex_side_def ex_unparsed_def Let_def)

section \<open>Signed 64-bit arithmetic without overflow\<close>

lemma sint_of_int_in_range:
  assumes "- (2 ^ 63) \<le> x" and "x < 2 ^ 63"
  shows "sint (word_of_int x :: qint64) = x"
  using assms by (simp add: signed_of_int signed_take_bit_int_eq_self)

lemma sint_anchor:
  fixes t :: qint64
  assumes "- (2 ^ 63) \<le> sint t * 1000 - 86400000" and "sint t * 1000 - 86400000 < 2 ^ 63"
  shows "sint (t * 1000 - 86400000) = sint t * 1000 - 86400000"
proof -
  have "t * 1000 - 86400000 = word_of_int (sint t * 1000 - 86400000)"
    by simp
  then show ?thesis using sint_of_int_in_range [OF assms] by simp
qed

lemma sint_diff_nonneg:
  fixes a b :: qint64
  assumes "0 \<le> sint a" and "sint a \<le> sint b"
  shows "sint (b - a) = sint b - sint a"
proof -
  have "sint b < 2 ^ 63" using sint_lt [of b] by simp
  with assms have r: "- (2 ^ 63) \<le> sint b - sint a" "sint b - sint a < 2 ^ 63" by auto
  have "b - a = word_of_int (sint b - sint a)" by simp
  then show ?thesis using sint_of_int_in_range [OF r] by simp
qed

section \<open>The anchor of a request\<close>

lemma fst_getNext:
  "fst (getNext now s) =
     (case blocksByTime s of [] \<Rightarrow> now | (k, b) # rest \<Rightarrow> time b * 1000 - 86400000)"
  by (simp add: getNext_def Log_def Let_def aday_ms_def split: list.splits)

lemma blocksByTime_getNext: "blocksByTime (snd (getNext now s)) = blocksByTime s"
  by (simp add: getNext_def Log_def Let_def split: list.splits)

lemma earliest_hd:
  assumes "index_ok s" and "blocksByTime s = (k, b) # rest"
  shows "time b = k \<and> earliest k (blocksByTime s)"
proof -
  from assms have "time b = k" and "\<forall>x\<in>set rest. sint k < sint (fst x)"
    by (auto simp: index_ok_def lt_qint64_def)
  then show ?thesis using assms(2) by (auto simp: earliest_def intro: less_imp_le)
qed

lemma earliest_unique: "earliest t xs \<Longrightarrow> earliest u xs \<Longrightarrow> t = u"
  unfolding earliest_def by (meson order_antisym sint_inj)

lemma ex_after_page_eq: "processResults (JsonObject (Some ex_page)) ex_start = Inr ex_after_page"
  by (simp add: ex_page_def ex_record_def ex_start_eq ex_after_page_def readBlock_def
      insertBlock_def Log_def Let_def lt_uint_def lt_qint64_def)

lemma index_ok_ex_after_page: "index_ok ex_after_page"
  using index_ok_processResults [OF _ ex_after_page_eq]
  by (simp add: ex_start_eq index_ok_def)

text \<open>
  Claim C5. The first request, from \<open>appEntry\<close> on a new object, carries the current
  time in milliseconds. A request made while the by-time index is empty carries the
  current time as well. With a non-empty index the request carries \<open>t * 1000 - 86400000\<close>
  in 64-bit arithmetic, where \<open>t\<close> is the earliest timestamp of the index; read as a
  signed number it is that value whenever the value fits 64 bits. The request that
  \<open>finished\<close> issues after a page is anchored at the earliest timestamp of the index
  as the page left it.
\<close>

theorem fetch_anchor:
  assumes "index_ok s"
  shows "fst (appEntry now (MainObj_new ndays dl nd)) = now \<and>
         (blocksByTime s = [] \<longrightarrow> fst (getNext now s) = now) \<and>
         (blocksByTime s \<noteq> [] \<longrightarrow>
            (\<exists>t. earliest t (blocksByTime s)) \<and>
            (\<forall>t. earliest t (blocksByTime s) \<longrightarrow>
               fst (getNext now s) = t * 1000 - 86400000 \<and>
               (- (2 ^ 63) \<le> sint t * 1000 - 86400000 \<and> sint t * 1000 - 86400000 < 2 ^ 63 \<longrightarrow>
                  sint (fst (getNext now s)) = sint t * 1000 - 86400000))) \<and>
         (finished LONG_MAX canOpen now d s = Request ts s' \<and> blocksByTime s' \<noteq> [] \<longrightarrow>
            (\<exists>t. earliest t (blocksByTime s') \<and> ts = t * 1000 - 86400000))"
proof (intro conjI impI)
  show "fst (appEntry now (MainObj_new ndays dl nd)) = now"
    by (simp add: appEntry_def fst_getNext Log_def MainObj_new_def Let_def)
next
  assume "blocksByTime s = []"
  then show "fst (getNext now s) = now" by (simp add: fst_getNext)
next
  assume "blocksByTime s \<noteq> []"
  then obtain k b rest where bt: "blocksByTime s = (k, b) # rest"
    by (cases "blocksByTime s") auto
  from earliest_hd [OF assms bt] show "\<exists>t. earliest t (blocksByTime s)" by blast
next
  assume "blocksByTime s \<noteq> []"
  then obtain k b rest where bt: "blocksByTime s = (k, b) # rest"
    by (cases "blocksByTime s") auto
  from earliest_hd [OF assms bt] have kb: "time b = k" "earliest k (blocksByTime s)" by auto
  show "\<forall>t. earliest t (blocksByTime s) \<longrightarrow>
               fst (getNext now s) = t * 1000 - 86400000 \<and>
               (- (2 ^ 63) \<le> sint t * 1000 - 86400000 \<and> sint t * 1000 - 86400000 < 2 ^ 63 \<longrightarrow>
                  sint (fst (getNext now s)) = sint t * 1000 - 86400000)"
  proof (intro allI impI)
    fix t assume "earliest t (blocksByTime s)"
    with kb(2) have "t = k" by (blast intro: earliest_unique)
    then have a: "fst (getNext now s) = t * 1000 - 86400000"
      using bt kb(1) by (simp add: fst_getNext)
    show "fst (getNext now s) = t * 1000 - 86400000 \<and>
               (- (2 ^ 63) \<le> sint t * 1000 - 86400000 \<and> sint t * 1000 - 86400000 < 2 ^ 63 \<longrightarrow>
                  sint (fst (getNext now s)) = sint t * 1000 - 86400000)"
      unfolding a using sint_anchor [of t] by blast
  qed
next
  assume a: "finished LONG_MAX canOpen now d s = Request ts s' \<and> blocksByTime s' \<noteq> []"
  then obtain doc s1 where d: "d = Some doc" and p: "processResults doc s = Inr s1"
    and left: "daysLeft s1 - 1 > 0"
    and g: "getNext now (s1\<lparr>daysLeft := daysLeft s1 - 1\<rparr>) = (ts, s')"
    by (auto simp: finished_def Let_def split: option.splits sum.splits if_splits prod.splits)
  let ?s2 = "s1\<lparr>daysLeft := daysLeft s1 - 1\<rparr>"
  have ok2: "index_ok ?s2"
    using index_ok_processResults [OF assms p] by (simp add: index_ok_def)
  from g have ts: "ts = fst (getNext now ?s2)" and s': "s' = snd (getNext now ?s2)" by simp_all
  have bt': "blocksByTime s' = blocksByTime ?s2" unfolding s' by (rule blocksByTime_getNext)
  with a obtain k b rest where bt: "blocksByTime ?s2 = (k, b) # rest"
    by (cases "blocksByTime ?s2") auto
  from earliest_hd [OF ok2 bt] have "time b = k" "earliest k (blocksByTime ?s2)" by auto
  moreover have "ts = time b * 1000 - 86400000"
    unfolding ts fst_getNext using bt by simp
  ultimately show "\<exists>t. earliest t (blocksByTime s') \<and> ts = t * 1000 - 86400000"
    unfolding bt' by blast
qed

theorem fetch_anchor_witness:
  "index_ok ex_after_page \<and> earliest 1500000000 (blocksByTime ex_after_page) \<and>
   fst (getNext 1500000100000 ex_after_page) = 1499913600000 \<and>
   sint (fst (getNext 1500000100000 ex_after_page)) = 1500000000 * 1000 - 86400000 \<and>
   (\<exists>s'. finished LONG_MAX_64 (\<lambda>f. True) 1500000100000 (Some (JsonObject (Some ex_page))) ex_start
      = Request 1499913600000 s')"
proof -
  have e: "earliest 1500000000 (blocksByTime ex_after_page)"
    by (simp add: earliest_def ex_after_page_def)
  have f: "\<exists>s'. finished LONG_MAX_64 (\<lambda>f. True) 1500000100000 (Some (JsonObject (Some ex_page))) ex_start
      = Request 1499913600000 s'"
    by (simp add: finished_def ex_after_page_eq Let_def getNext_def Log_def ex_after_page_def
        aday_ms_def del: processResults.simps)
  have ne: "blocksByTime ex_after_page \<noteq> []" by (simp add: ex_after_page_def)
  from fetch_anchor [OF index_ok_ex_after_page, of 1500000100000] ne e
  have "fst (getNext 1500000100000 ex_after_page) = 1500000000 * 1000 - 86400000 \<and>
        sint (fst (getNext 1500000100000 ex_after_page)) = 1500000000 * 1000 - 86400000"
    by simp
  with index_ok_ex_after_page e f show ?thesis by simp
qed

section \<open>The exporter writes both files from the by-height index\<close>

lemma saveCsv_files:
  "canOpen fileNameA \<Longrightarrow> canOpen fileNameB \<Longrightarrow>
   saveCsv canOpen s =
     (None, [(fileNameA, headerA # map (\<lambda>(k, b). rowA b) (blocks s)),
             (fileNameB, headerB # map (\<lambda>(k, b). rowB b) (blocks s))],
      [Log_Saved fileNameA fileNameB])"
  by (simp add: saveCsv_def Let_def)

text \<open>
  Claim C1. The claim has File B hold one row per entry of the by-time index, in
  ascending time. \<open>saveCsv\<close> writes file B from \<open>blocks\<close>, the by-height index, as it
  does file A. On the page \<open>ex_page_swapped\<close>, where block 2 is earlier than block 1,
  file B comes out in the order of the heights, 1500000600 before 1500000000, while the
  rows of the by-time index are in the other order.
\<close>

theorem fileB_in_height_order:
  "processResults (JsonObject (Some ex_page_swapped)) ex_start = Inr ex_after_swapped \<and>
   saveCsv (\<lambda>f. True) ex_after_swapped =
     (None,
      [(''blocks_sorted_by_height.csv'',
        [''#BlockHeight,BlockTimeUTC,BlockHash'' @ newline,
         ''1,1500000600,aa'' @ newline,
         ''2,1500000000,bb'' @ newline]),
       (''blocks_sorted_by_timestamp.csv'',
        [''#BlockTimeUTC,BlockHeight,BlockHash'' @ newline,
         ''1500000600,1,aa'' @ newline,
         ''1500000000,2,bb'' @ newline])],
      [Log_Saved ''blocks_sorted_by_height.csv'' ''blocks_sorted_by_timestamp.csv'']) \<and>
   fileB_spec ex_after_swapped =
     [''#BlockTimeUTC,BlockHeight,BlockHash'' @ newline,
      ''1500000000,2,bb'' @ newline,
      ''1500000600,1,aa'' @ newline] \<and>
   lookup_fileB (fst (snd (saveCsv (\<lambda>f. True) ex_after_swapped))) \<noteq> Some (fileB_spec ex_after_swapped)"
proof -
  have 1: "processResults (JsonObject (Some ex_page_swapped)) ex_start = Inr ex_after_swapped"
    by (simp add: ex_page_swapped_def ex_record_def ex_start_eq ex_after_swapped_def
        readBlock_def insertBlock_def Log_def Let_def lt_uint_def lt_qint64_def)
  have 2: "saveCsv (\<lambda>f. True) ex_after_swapped =
     (None,
      [(''blocks_sorted_by_height.csv'',
        [''#BlockHeight,BlockTimeUTC,BlockHash'' @ newline,
         ''1,1500000600,aa'' @ newline,
         ''2,1500000000,bb'' @ newline]),
       (''blocks_sorted_by_timestamp.csv'',
        [''#BlockTimeUTC,BlockHeight,BlockHash'' @ newline,
         ''1500000600,1,aa'' @ newline,
         ''1500000000,2,bb'' @ newline])],
      [Log_Saved ''blocks_sorted_by_height.csv'' ''blocks_sorted_by_timestamp.csv''])"
    by (simp add: saveCsv_files ex_after_swapped_def rowA_def rowB_def decimal_def digits.simps
        headerA_def headerB_def fileNameA_def fileNameB_def)
  have 3: "fileB_spec ex_after_swapped =
     [''#BlockTimeUTC,BlockHeight,BlockHash'' @ newline,
      ''1500000000,2,bb'' @ newline,
      ''1500000600,1,aa'' @ newline]"
    by (simp add: fileB_spec_def ex_after_swapped_def rowB_def decimal_def digits.simps headerB_def)
  have 4: "lookup_fileB (fst (snd (saveCsv (\<lambda>f. True) ex_after_swapped))) \<noteq> Some (fileB_spec ex_after_swapped)"
    unfolding 2 3 by (simp add: lookup_fileB_def fileNameB_def)
  from 1 2 3 4 show ?thesis by blast
qed

section \<open>Duplicate keys\<close>

lemma filter_key_distinct:
  "distinct (map fst xs) \<Longrightarrow> map_of xs k = Some v \<Longrightarrow> filter (\<lambda>e. fst e = k) xs = [(k, v)]"
proof (induction xs)
  case Nil
  then show ?case by simp
next
  case (Cons e xs)
  obtain k' v' where e: "e = (k', v')" by (cases e)
  show ?case
  proof (cases "k' = k")
    case True
    with Cons.prems have "v' = v" and "k \<notin> fst ` set xs" by (auto simp: e)
    then have "filter (\<lambda>e. fst e = k) xs = []" by (auto simp: filter_empty_conv)
    with True \<open>v' = v\<close> show ?thesis by (simp add: e)
  next
    case False
    with Cons show ?thesis by (simp add: e)
  qed
qed

lemma qmap_insert_only_entry:
  assumes sl: "strict_linear lt" and "sorted_wrt lt (map fst xs)"
  shows "filter (\<lambda>e. fst e = k) (qmap_insert lt k v xs) = [(k, v)]"
proof -
  have "distinct (map fst (qmap_insert lt k v xs))"
    using sorted_wrt_distinct [OF sl sorted_qmap_insert [OF sl assms(2)]] .
  moreover have "map_of (qmap_insert lt k v xs) k = Some v"
    by (simp add: map_of_qmap_insert [OF sl])
  ultimately show ?thesis by (rule filter_key_distinct)
qed

lemma qmap_find_qmap_insert:
  assumes sl: "strict_linear lt" and "sorted_wrt lt (map fst xs)"
  shows "qmap_find lt k (qmap_insert lt k v xs) = Some v"
  using qmap_find_map_of [OF sl sorted_qmap_insert [OF sl assms(2)]]
  by (simp add: map_of_qmap_insert [OF sl])

lemma qmap_find_None_iff:
  assumes sl: "strict_linear lt" and "sorted_wrt lt (map fst xs)"
  shows "qmap_find lt k xs = None \<longleftrightarrow> k \<notin> fst ` set xs"
  using qmap_find_map_of [OF sl assms(2)] by (simp add: map_of_eq_None_iff)

lemma nBlocks_of_insertBlock: "nBlocks_of (insertBlock b s) = nBlocks_of s + 1"
  by (simp add: nBlocks_of_def blocksByTime_insertBlock nDupeTimes_insertBlock
      length_qmap_insert split: option.splits)

lemma processElement_main_record:
  "main_record j \<Longrightarrow> processElement (BlockObject j) s = Inr (insertBlock (readBlock j) s)"
  by (simp add: main_record_def Let_def)

lemma readBlock_simps [simp]:
  "height (readBlock j) = j_height j" "hash (readBlock j) = j_hash j" "time (readBlock j) = j_time j"
  by (simp_all add: readBlock_def)

lemma readBlock_neq:
  "j_height j1 \<noteq> j_height j2 \<or> j_hash j1 \<noteq> j_hash j2 \<or> j_time j1 \<noteq> j_time j2
     \<Longrightarrow> readBlock j1 \<noteq> readBlock j2"
  by (auto simp: readBlock_def)

text \<open>
  Claim C3. Two main-chain records with the same time that differ in height or hash are
  processed one after the other, from an object whose indexes are in order. Both are
  accepted. Afterwards the by-time index has a single entry for that time, holding the
  second record, and does not hold the first; the second record raised the
  duplicate-timestamp counter by exactly one; and \<open>nBlocks\<close>, the size of the by-time
  index plus the counter, has grown by the number of distinct records, two. From an
  empty index with the counter at zero, the index is that single entry, the counter is
  one, and \<open>nBlocks\<close> is the number of distinct records.
\<close>

theorem duplicate_timestamp:
  assumes ok: "index_ok s"
    and m1: "main_record j1" and m2: "main_record j2"
    and same: "j_time j1 = j_time j2"
    and diff: "j_height j1 \<noteq> j_height j2 \<or> j_hash j1 \<noteq> j_hash j2"
  shows "\<exists>s1 s2.
           processElement (BlockObject j1) s = Inr s1 \<and>
           processElement (BlockObject j2) s1 = Inr s2 \<and>
           processResults (JsonObject (Some [BlockObject j1, BlockObject j2])) s = Inr s2 \<and>
           filter (\<lambda>e. fst e = j_time j2) (blocksByTime s2) = [(j_time j2, readBlock j2)] \<and>
           readBlock j1 \<notin> snd ` set (blocksByTime s2) \<and>
           nDupeTimes s2 = nDupeTimes s1 + 1 \<and>
           nBlocks_of s2 = nBlocks_of s + int (card {j1, j2}) \<and>
           (blocksByTime s = [] \<and> nDupeTimes s = 0 \<longrightarrow>
              blocksByTime s2 = [(j_time j2, readBlock j2)] \<and> nDupeTimes s2 = 1 \<and>
              nBlocks_of s2 = int (card {j1, j2}))"
proof -
  let ?b1 = "readBlock j1" and ?b2 = "readBlock j2"
  let ?s1 = "insertBlock ?b1 s"
  let ?s2 = "insertBlock ?b2 ?s1"
  note sl = strict_linear_lt_qint64
  have ok1: "index_ok ?s1" using ok by (rule index_ok_insertBlock)
  have ok2: "index_ok ?s2" using ok1 by (rule index_ok_insertBlock)
  have sorted_s: "sorted_wrt lt_qint64 (map fst (blocksByTime s))"
    using ok by (simp add: index_ok_def)
  have sorted1: "sorted_wrt lt_qint64 (map fst (blocksByTime ?s1))"
    using ok1 by (simp add: index_ok_def)
  have ne: "j1 \<noteq> j2" using diff by auto
  have bne: "?b1 \<noteq> ?b2" using diff readBlock_neq [of j1 j2] by blast
  have p1: "processElement (BlockObject j1) s = Inr ?s1"
    using m1 by (rule processElement_main_record)
  have p2: "processElement (BlockObject j2) ?s1 = Inr ?s2"
    using m2 by (rule processElement_main_record)
  have p: "processResults (JsonObject (Some [BlockObject j1, BlockObject j2])) s = Inr ?s2"
    using p1 p2 by simp
  have only: "filter (\<lambda>e. fst e = j_time j2) (blocksByTime ?s2) = [(j_time j2, ?b2)]"
    using qmap_insert_only_entry [OF sl sorted1, of "j_time j2" ?b2]
    by (simp add: blocksByTime_insertBlock)
  have gone: "?b1 \<notin> snd ` set (blocksByTime ?s2)"
  proof
    assume "?b1 \<in> snd ` set (blocksByTime ?s2)"
    then obtain e where e: "e \<in> set (blocksByTime ?s2)" "snd e = ?b1" by auto
    with ok2 have "fst e = j_time j2" by (auto simp: index_ok_def same)
    with e(1) have "e \<in> set (filter (\<lambda>e. fst e = j_time j2) (blocksByTime ?s2))" by simp
    with only e(2) bne show False by simp
  qed
  have found: "qmap_find lt_qint64 (j_time j2) (blocksByTime ?s1) = Some ?b1"
    using qmap_find_qmap_insert [OF sl sorted_s, of "j_time j1" ?b1]
    by (simp add: blocksByTime_insertBlock same)
  have dup: "nDupeTimes ?s2 = nDupeTimes ?s1 + 1"
    by (simp add: nDupeTimes_insertBlock [of ?b2] found)
  have card: "int (card {j1, j2}) = 2" using ne by simp
  have total: "nBlocks_of ?s2 = nBlocks_of s + int (card {j1, j2})"
    unfolding card by (simp add: nBlocks_of_insertBlock)
  have fresh: "blocksByTime s = [] \<and> nDupeTimes s = 0 \<longrightarrow>
          blocksByTime ?s2 = [(j_time j2, ?b2)] \<and> nDupeTimes ?s2 = 1 \<and>
          nBlocks_of ?s2 = int (card {j1, j2})"
  proof
    assume a: "blocksByTime s = [] \<and> nDupeTimes s = 0"
    then have bt1: "blocksByTime ?s1 = [(j_time j2, ?b1)]"
      by (simp add: blocksByTime_insertBlock same)
    have nd1: "nDupeTimes ?s1 = 0" using a by (simp add: nDupeTimes_insertBlock)
    have "blocksByTime ?s2 = [(j_time j2, ?b2)]"
      by (simp add: blocksByTime_insertBlock [of ?b2] bt1 lt_qint64_def)
    moreover have "nDupeTimes ?s2 = 1" using dup nd1 by simp
    moreover have "nBlocks_of s = 0" using a by (simp add: nBlocks_of_def)
    ultimately show "blocksByTime ?s2 = [(j_time j2, ?b2)] \<and> nDupeTimes ?s2 = 1 \<and>
          nBlocks_of ?s2 = int (card {j1, j2})" using total by simp
  qed
  from p1 p2 p only gone dup total fresh show ?thesis by blast
qed

theorem duplicate_timestamp_witness:
  "index_ok ex_start \<and>
   main_record (ex_record 1 ''aa'' 1500000000) \<and> main_record (ex_record 2 ''bb'' 1500000000) \<and>
   j_time (ex_record 1 ''aa'' 1500000000) = j_time (ex_record 2 ''bb'' 1500000000) \<and>
   j_height (ex_record 1 ''aa'' 1500000000) \<noteq> j_height (ex_record 2 ''bb'' 1500000000) \<and>
   (\<exists>s2. processResults (JsonObject (Some [BlockObject (ex_record 1 ''aa'' 1500000000),
                                              BlockObject (ex_record 2 ''bb'' 1500000000)])) ex_start
            = Inr s2 \<and>
         blocksByTime s2 = [(1500000000, \<lparr>height = 2, hash = ''bb'', time = 1500000000\<rparr>)] \<and>
         nDupeTimes s2 = 1 \<and> nBlocks_of s2 = 2)"
proof -
  let ?j1 = "ex_record 1 ''aa'' 1500000000" and ?j2 = "ex_record 2 ''bb'' 1500000000"
  have ok: "index_ok ex_start" by (simp add: ex_start_eq index_ok_def)
  have m1: "main_record ?j1" and m2: "main_record ?j2"
    by (simp_all add: main_record_def ex_record_def)
  have same: "j_time ?j1 = j_time ?j2" by (simp add: ex_record_def)
  have diff: "j_height ?j1 \<noteq> j_height ?j2" by (simp add: ex_record_def)
  have fresh: "blocksByTime ex_start = [] \<and> nDupeTimes ex_start = 0" by (simp add: ex_start_eq)
  have "?j1 \<noteq> ?j2" using diff by auto
  then have card: "int (card {?j1, ?j2}) = 2" by simp
  from duplicate_timestamp [OF ok m1 m2 same disjI1 [OF diff]] fresh
  obtain s2 where
    "processResults (JsonObject (Some [BlockObject ?j1, BlockObject ?j2])) ex_start = Inr s2"
    "blocksByTime s2 = [(j_time ?j2, readBlock ?j2)]" "nDupeTimes s2 = 1"
    "nBlocks_of s2 = int (card {?j1, ?j2})"
    by blast
  then have "\<exists>s2. processResults (JsonObject (Some [BlockObject ?j1, BlockObject ?j2])) ex_start
            = Inr s2 \<and>
         blocksByTime s2 = [(1500000000, \<lparr>height = 2, hash = ''bb'', time = 1500000000\<rparr>)] \<and>
         nDupeTimes s2 = 1 \<and> nBlocks_of s2 = 2"
    unfolding card by (auto simp: ex_record_def readBlock_def)
  with ok m1 m2 same diff show ?thesis by blast
qed

text \<open>
  Claim C7. Two main-chain records with the same height that differ in hash or time are
  processed one after the other, from an object whose indexes are in order. Both are
  accepted. Afterwards the by-height index has a single entry for that height, holding
  the second record, and does not hold the first. Processing the second record prints
  exactly one duplicate-height line, which carries the time and hash of the first
  record, read before the entry is replaced; the only other line it can print is the
  duplicate-timestamp line. When the time of the second record is not a key of the
  by-time index, the duplicate-timestamp counter stays as it was. From empty indexes
  and with different times, the whole pair prints the one duplicate-height line and
  leaves the counter alone.
\<close>

theorem duplicate_height:
  assumes ok: "index_ok s"
    and m1: "main_record j1" and m2: "main_record j2"
    and same: "j_height j1 = j_height j2"
    and diff: "j_hash j1 \<noteq> j_hash j2 \<or> j_time j1 \<noteq> j_time j2"
  shows "\<exists>s1 s2.
           processElement (BlockObject j1) s = Inr s1 \<and>
           processElement (BlockObject j2) s1 = Inr s2 \<and>
           processResults (JsonObject (Some [BlockObject j1, BlockObject j2])) s = Inr s2 \<and>
           filter (\<lambda>e. fst e = j_height j2) (blocks s2) = [(j_height j2, readBlock j2)] \<and>
           readBlock j1 \<notin> snd ` set (blocks s2) \<and>
           console s2 =
             console s1 @
             [Log_DupeBlock (j_height j2) (j_time j2) (j_hash j2) (j_time j1) (j_hash j1)] @
             (case qmap_find lt_qint64 (j_time j2) (blocksByTime s1) of
                None \<Rightarrow> []
              | Some old \<Rightarrow>
                  [Log_DupeTimestamp (j_time j2) (j_height j2) (j_hash j2) (height old) (hash old)]) \<and>
           length (filter isDupeBlock (drop (length (console s1)) (console s2))) = 1 \<and>
           (j_time j2 \<notin> fst ` set (blocksByTime s1) \<longrightarrow> nDupeTimes s2 = nDupeTimes s1) \<and>
           (blocks s = [] \<and> blocksByTime s = [] \<and> j_time j1 \<noteq> j_time j2 \<longrightarrow>
              blocks s2 = [(j_height j2, readBlock j2)] \<and>
              nDupeTimes s2 = nDupeTimes s \<and>
              console s2 =
                console s @
                [Log_DupeBlock (j_height j2) (j_time j2) (j_hash j2) (j_time j1) (j_hash j1)])"
proof -
  let ?b1 = "readBlock j1" and ?b2 = "readBlock j2"
  let ?s1 = "insertBlock ?b1 s"
  let ?s2 = "insertBlock ?b2 ?s1"
  note sl = strict_linear_lt_uint
  note slt = strict_linear_lt_qint64
  have ok1: "index_ok ?s1" using ok by (rule index_ok_insertBlock)
  have ok2: "index_ok ?s2" using ok1 by (rule index_ok_insertBlock)
  have sorted_s: "sorted_wrt lt_uint (map fst (blocks s))"
    using ok by (simp add: index_ok_def)
  have sorted1: "sorted_wrt lt_uint (map fst (blocks ?s1))"
    using ok1 by (simp add: index_ok_def)
  have sortedt1: "sorted_wrt lt_qint64 (map fst (blocksByTime ?s1))"
    using ok1 by (simp add: index_ok_def)
  have bne: "?b1 \<noteq> ?b2" using diff readBlock_neq [of j1 j2] by blast
  have p1: "processElement (BlockObject j1) s = Inr ?s1"
    using m1 by (rule processElement_main_record)
  have p2: "processElement (BlockObject j2) ?s1 = Inr ?s2"
    using m2 by (rule processElement_main_record)
  have p: "processResults (JsonObject (Some [BlockObject j1, BlockObject j2])) s = Inr ?s2"
    using p1 p2 by simp
  have only: "filter (\<lambda>e. fst e = j_height j2) (blocks ?s2) = [(j_height j2, ?b2)]"
    using qmap_insert_only_entry [OF sl sorted1, of "j_height j2" ?b2]
    by (simp add: blocks_insertBlock)
  have gone: "?b1 \<notin> snd ` set (blocks ?s2)"
  proof
    assume "?b1 \<in> snd ` set (blocks ?s2)"
    then obtain e where e: "e \<in> set (blocks ?s2)" "snd e = ?b1" by auto
    with ok2 have "fst e = j_height j2" by (auto simp: index_ok_def same)
    with e(1) have "e \<in> set (filter (\<lambda>e. fst e = j_height j2) (blocks ?s2))" by simp
    with only e(2) bne show False by simp
  qed
  have found: "qmap_find lt_uint (j_height j2) (blocks ?s1) = Some ?b1"
    using qmap_find_qmap_insert [OF sl sorted_s, of "j_height j1" ?b1]
    by (simp add: blocks_insertBlock same)
  have con: "console ?s2 =
             console ?s1 @
             [Log_DupeBlock (j_height j2) (j_time j2) (j_hash j2) (j_time j1) (j_hash j1)] @
             (case qmap_find lt_qint64 (j_time j2) (blocksByTime ?s1) of
                None \<Rightarrow> []
              | Some old \<Rightarrow>
                  [Log_DupeTimestamp (j_time j2) (j_height j2) (j_hash j2) (height old) (hash old)])"
    by (simp add: console_insertBlock [of ?b2] found split: option.splits)
  have once: "length (filter isDupeBlock (drop (length (console ?s1)) (console ?s2))) = 1"
    unfolding con by (simp split: option.splits)
  have nodup: "j_time j2 \<notin> fst ` set (blocksByTime ?s1) \<longrightarrow> nDupeTimes ?s2 = nDupeTimes ?s1"
    using qmap_find_None_iff [OF slt sortedt1, of "j_time j2"]
    by (auto simp: nDupeTimes_insertBlock [of ?b2])
  have fresh: "blocks s = [] \<and> blocksByTime s = [] \<and> j_time j1 \<noteq> j_time j2 \<longrightarrow>
              blocks ?s2 = [(j_height j2, ?b2)] \<and>
              nDupeTimes ?s2 = nDupeTimes s \<and>
              console ?s2 =
                console s @
                [Log_DupeBlock (j_height j2) (j_time j2) (j_hash j2) (j_time j1) (j_hash j1)]"
  proof
    assume a: "blocks s = [] \<and> blocksByTime s = [] \<and> j_time j1 \<noteq> j_time j2"
    then have b1: "blocks ?s1 = [(j_height j2, ?b1)]"
      by (simp add: blocks_insertBlock same)
    have bt1: "blocksByTime ?s1 = [(j_time j1, ?b1)]"
      using a by (simp add: blocksByTime_insertBlock)
    have c1: "console ?s1 = console s" using a by (simp add: console_insertBlock)
    have nd1: "nDupeTimes ?s1 = nDupeTimes s" using a by (simp add: nDupeTimes_insertBlock)
    have "j_time j2 \<notin> fst ` set (blocksByTime ?s1)"
      unfolding bt1 using a by auto
    then have nf: "qmap_find lt_qint64 (j_time j2) (blocksByTime ?s1) = None"
      using qmap_find_None_iff [OF slt sortedt1, of "j_time j2"] by blast
    have "blocks ?s2 = [(j_height j2, ?b2)]"
      by (simp add: blocks_insertBlock [of ?b2] b1 lt_uint_def)
    moreover have "nDupeTimes ?s2 = nDupeTimes s"
      using nd1 by (simp add: nDupeTimes_insertBlock [of ?b2] nf)
    moreover have "console ?s2 =
                console s @
                [Log_DupeBlock (j_height j2) (j_time j2) (j_hash j2) (j_time j1) (j_hash j1)]"
      unfolding con nf c1 by simp
    ultimately show "blocks ?s2 = [(j_height j2, ?b2)] \<and>
              nDupeTimes ?s2 = nDupeTimes s \<and>
              console ?s2 =
                console s @
                [Log_DupeBlock (j_height j2) (j_time j2) (j_hash j2) (j_time j1) (j_hash j1)]"
      by blast
  qed
  from p1 p2 p only gone con once nodup fresh show ?thesis by blast
qed

theorem duplicate_height_witness:
  "index_ok ex_start \<and>
   main_record (ex_record 7 ''aa'' 1500000000) \<and> main_record (ex_record 7 ''bb'' 1500000600) \<and>
   j_height (ex_record 7 ''aa'' 1500000000) = j_height (ex_record 7 ''bb'' 1500000600) \<and>
   j_hash (ex_record 7 ''aa'' 1500000000) \<noteq> j_hash (ex_record 7 ''bb'' 1500000600) \<and>
   (\<exists>s2. processResults (JsonObject (Some [BlockObject (ex_record 7 ''aa'' 1500000000),
                                              BlockObject (ex_record 7 ''bb'' 1500000600)])) ex_start
            = Inr s2 \<and>
         blocks s2 = [(7, \<lparr>height = 7, hash = ''bb'', time = 1500000600\<rparr>)] \<and>
         nDupeTimes s2 = 0 \<and>
         console s2 = [Log_Connecting 3, Log_Received 0 0,
                       Log_DupeBlock 7 1500000600 ''bb'' 1500000000 ''aa''])"
proof -
  let ?j1 = "ex_record 7 ''aa'' 1500000000" and ?j2 = "ex_record 7 ''bb'' 1500000600"
  have ok: "index_ok ex_start" by (simp add: ex_start_eq index_ok_def)
  have m1: "main_record ?j1" and m2: "main_record ?j2"
    by (simp_all add: main_record_def ex_record_def)
  have same: "j_height ?j1 = j_height ?j2" by (simp add: ex_record_def)
  have diff: "j_hash ?j1 \<noteq> j_hash ?j2" by (simp add: ex_record_def)
  have fresh: "blocks ex_start = [] \<and> blocksByTime ex_start = [] \<and> j_time ?j1 \<noteq> j_time ?j2"
    by (simp add: ex_start_eq ex_record_def)
  from duplicate_height [OF ok m1 m2 same disjI1 [OF diff]] fresh
  obtain s2 where
    "processResults (JsonObject (Some [BlockObject ?j1, BlockObject ?j2])) ex_start = Inr s2"
    "blocks s2 = [(j_height ?j2, readBlock ?j2)]" "nDupeTimes s2 = nDupeTimes ex_start"
    "console s2 = console ex_start @
       [Log_DupeBlock (j_height ?j2) (j_time ?j2) (j_hash ?j2) (j_time ?j1) (j_hash ?j1)]"
    by blast
  then have "\<exists>s2. processResults (JsonObject (Some [BlockObject ?j1, BlockObject ?j2])) ex_start
            = Inr s2 \<and>
         blocks s2 = [(7, \<lparr>height = 7, hash = ''bb'', time = 1500000600\<rparr>)] \<and>
         nDupeTimes s2 = 0 \<and>
         console s2 = [Log_Connecting 3, Log_Received 0 0,
                       Log_DupeBlock 7 1500000600 ''bb'' 1500000000 ''aa'']"
    by (auto simp: ex_record_def readBlock_def ex_start_eq)
  with ok m1 m2 same diff show ?thesis by blast
qed

section \<open>The statistics loop\<close>

lemma statsStep_Inl:
  "statsStep n b a = Inl e \<longleftrightarrow>
     - 1 < sint (last' a) \<and> sint (time b - last' a) < 0 \<and>
     e = Fatal_NegativeDelta (height b) (time b - last' a)"
  by (auto simp: statsStep_def Let_def)

lemma statsStep_last: "statsStep n b a = Inr a' \<Longrightarrow> last' a' = time b"
  by (auto simp: statsStep_def Let_def split: if_splits)

lemma statsStep_nonneg:
  "statsStep n b a = Inr a' \<Longrightarrow> \<forall>d\<in>set (if - 1 < sint (last' a) then [time b - last' a] else []). 0 \<le> sint d"
  by (auto simp: statsStep_def Let_def split: if_splits)

lemma avg_sum_append: "avg_sum n x (ds @ es) = avg_sum n (avg_sum n x ds) es"
  by (induction ds arbitrary: x) simp_all

lemma exact_value_avg_sum:
  "n \<noteq> 0 \<Longrightarrow> exact_value x = Some v \<Longrightarrow>
     exact_value (avg_sum n x ds) = Some (v + of_int (sum_list ds) / of_int n)"
  by (induction ds arbitrary: x v) (simp_all add: add_divide_distrib)

lemma statsStep_avg:
  "statsStep n b a = Inr a' \<Longrightarrow>
     avg a' = avg_sum (if n > 0 then n else 1) (avg a)
                (map sint (if - 1 < sint (last' a) then [time b - last' a] else []))"
  by (auto simp: statsStep_def Let_def split: if_splits)

lemma statsStep_cutoffdeltasums:
  "statsStep n b a = Inr a' \<Longrightarrow>
     cutoffdeltasums a' = cutoffdeltasums a +
       sum_list (map (\<lambda>d. d - mycutoff) (filter (\<lambda>d. sint mycutoff \<le> sint d) (if - 1 < sint (last' a) then [time b - last' a] else [])))"
  by (auto simp: statsStep_def Let_def split: if_splits)

lemma statsStep_nsums:
  "statsStep n b a = Inr a' \<Longrightarrow>
     nsums a' = nsums a +
       of_nat (length (filter (\<lambda>d. sint mycutoff \<le> sint d) (if - 1 < sint (last' a) then [time b - last' a] else [])))"
  by (auto simp: statsStep_def Let_def split: if_splits)

lemma statsStep_min_zero: "statsStep n b a = Inr a' \<Longrightarrow> min' a = 0 \<Longrightarrow> min' a' = 0"
  by (auto simp: statsStep_def Let_def split: if_splits)

lemma statsStep_min_same:
  "statsStep n b a = Inr a' \<Longrightarrow> \<not> - 1 < sint (last' a) \<Longrightarrow> min' a' = min' a"
  by (auto simp: statsStep_def Let_def split: if_splits)

lemma statsLoop_Inl:
  "statsLoop n bs a = Inl e \<Longrightarrow> \<exists>h d. e = Fatal_NegativeDelta h d \<and> sint d < 0"
proof (induction bs arbitrary: a)
  case Nil
  then show ?case by simp
next
  case (Cons b bs)
  show ?case
  proof (cases "statsStep n b a")
    case (Inl e')
    with Cons.prems have "e' = e" by simp
    with Inl show ?thesis by (auto simp: statsStep_Inl)
  next
    case (Inr a')
    with Cons.prems have "statsLoop n bs a' = Inl e" by simp
    then show ?thesis by (rule Cons.IH)
  qed
qed

lemma statsLoop_fails_iff:
  "(\<exists>e. statsLoop n bs a = Inl e) \<longleftrightarrow> (\<exists>d\<in>set (deltas (last' a) bs). sint d < 0)"
proof (induction bs arbitrary: a)
  case Nil
  show ?case by simp
next
  case (Cons b bs)
  show ?case
  proof (cases "statsStep n b a")
    case (Inl e')
    then have "statsLoop n (b # bs) a = Inl e'" by simp
    moreover from Inl have "- 1 < sint (last' a) \<and> sint (time b - last' a) < 0"
      by (simp add: statsStep_Inl)
    ultimately show ?thesis by auto
  next
    case (Inr a')
    have nn: "\<forall>d\<in>set (if - 1 < sint (last' a) then [time b - last' a] else []). 0 \<le> sint d"
      using Inr by (rule statsStep_nonneg)
    have "(\<exists>e. statsLoop n (b # bs) a = Inl e) \<longleftrightarrow> (\<exists>e. statsLoop n bs a' = Inl e)"
      using Inr by simp
    also have "\<dots> \<longleftrightarrow> (\<exists>d\<in>set (deltas (time b) bs). sint d < 0)"
      using Cons.IH [of a'] statsStep_last [OF Inr] by simp
    also have "\<dots> \<longleftrightarrow> (\<exists>d\<in>set (deltas (last' a) (b # bs)). sint d < 0)"
      using nn by fastforce
    finally show ?thesis .
  qed
qed

lemma statsLoop_avg:
  "statsLoop n bs a = Inr a' \<Longrightarrow>
     avg a' = avg_sum (if n > 0 then n else 1) (avg a) (map sint (deltas (last' a) bs))"
proof (induction bs arbitrary: a)
  case Nil
  then show ?case by simp
next
  case (Cons b bs)
  then obtain a1 where s: "statsStep n b a = Inr a1" and l: "statsLoop n bs a1 = Inr a'"
    by (auto split: sum.splits)
  show ?case
    using Cons.IH [OF l] statsStep_avg [OF s] statsStep_last [OF s]
    by (simp add: avg_sum_append)
qed

lemma statsLoop_cutoffdeltasums:
  "statsLoop n bs a = Inr a' \<Longrightarrow>
     cutoffdeltasums a' = cutoffdeltasums a +
       sum_list (map (\<lambda>d. d - mycutoff) (filter (\<lambda>d. sint mycutoff \<le> sint d) (deltas (last' a) bs)))"
proof (induction bs arbitrary: a)
  case Nil
  then show ?case by simp
next
  case (Cons b bs)
  then obtain a1 where s: "statsStep n b a = Inr a1" and l: "statsLoop n bs a1 = Inr a'"
    by (auto split: sum.splits)
  show ?case
    using Cons.IH [OF l] statsStep_cutoffdeltasums [OF s] statsStep_last [OF s]
    by simp
qed

lemma statsLoop_nsums:
  "statsLoop n bs a = Inr a' \<Longrightarrow>
     nsums a' = nsums a +
       of_nat (length (filter (\<lambda>d. sint mycutoff \<le> sint d) (deltas (last' a) bs)))"
proof (induction bs arbitrary: a)
  case Nil
  then show ?case by simp
next
  case (Cons b bs)
  then obtain a1 where s: "statsStep n b a = Inr a1" and l: "statsLoop n bs a1 = Inr a'"
    by (auto split: sum.splits)
  show ?case
    using Cons.IH [OF l] statsStep_nsums [OF s] statsStep_last [OF s]
    by simp
qed

lemma statsLoop_min_zero: "statsLoop n bs a = Inr a' \<Longrightarrow> min' a = 0 \<Longrightarrow> min' a' = 0"
proof (induction bs arbitrary: a)
  case Nil
  then show ?case by simp
next
  case (Cons b bs)
  then obtain a1 where s: "statsStep n b a = Inr a1" and l: "statsLoop n bs a1 = Inr a'"
    by (auto split: sum.splits)
  from Cons.IH [OF l statsStep_min_zero [OF s Cons.prems(2)]] show ?case .
qed

lemma statsLoop_min_same:
  "statsLoop n bs a = Inr a' \<Longrightarrow> deltas (last' a) bs = [] \<Longrightarrow> min' a' = min' a"
proof (induction bs arbitrary: a)
  case Nil
  then show ?case by simp
next
  case (Cons b bs)
  then obtain a1 where s: "statsStep n b a = Inr a1" and l: "statsLoop n bs a1 = Inr a'"
    by (auto split: sum.splits)
  from Cons.prems(2) have d1: "\<not> - 1 < sint (last' a)" and d2: "deltas (time b) bs = []"
    by (simp_all split: if_splits)
  from Cons.IH [OF l] d2 statsStep_last [OF s] have "min' a' = min' a1" by simp
  with statsStep_min_same [OF s d1] show ?case by simp
qed

lemma delta_in_deltas:
  "Suc i < length bs \<Longrightarrow> - 1 < sint (time (bs ! i)) \<Longrightarrow>
     time (bs ! Suc i) - time (bs ! i) \<in> set (deltas l bs)"
proof (induction bs arbitrary: i l)
  case Nil
  then show ?case by simp
next
  case (Cons b bs)
  show ?case
  proof (cases i)
    case 0
    with Cons.prems obtain c cs where "bs = c # cs" by (cases bs) auto
    with 0 Cons.prems show ?thesis by simp
  next
    case (Suc k)
    with Cons.prems Cons.IH [of k "time b"] show ?thesis by simp
  qed
qed

section \<open>Gaps of an ascending index\<close>

lemma gaps_from_epoch_minus1: "gaps_from_epoch (- 1 # ts) = gaps_from_epoch ts"
  by (cases ts) simp_all

lemma gaps_from_epoch_gaps: "\<forall>t\<in>set ts. 0 \<le> t \<Longrightarrow> gaps_from_epoch ts = gaps ts"
  by (induction ts rule: gaps.induct) simp_all

lemma sum_list_gaps: "sum_list (gaps (x # ts)) = last (x # ts) - x"
  by (induction ts arbitrary: x) simp_all

lemma gaps_from_epoch_pos:
  "sorted_wrt (<) ts \<Longrightarrow> \<forall>g\<in>set (gaps_from_epoch ts). 0 < g"
  by (induction ts rule: gaps_from_epoch.induct) auto

lemma sum_list_gaps_from_epoch:
  "sorted_wrt (<) (x # ts) \<Longrightarrow>
     (0 \<le> x \<longrightarrow> sum_list (gaps_from_epoch (x # ts)) = last (x # ts) - x) \<and>
     (x < 0 \<longrightarrow> sum_list (gaps_from_epoch (x # ts)) \<le> max 0 (last (x # ts)))"
proof (induction ts arbitrary: x)
  case Nil
  show ?case by simp
next
  case (Cons y ts)
  from Cons.prems have xy: "x < y" and tl: "sorted_wrt (<) (y # ts)" by auto
  note IH = Cons.IH [OF tl]
  show ?case
  proof (cases "0 \<le> x")
    case True
    with xy have "0 \<le> y" by simp
    with IH have "sum_list (gaps_from_epoch (y # ts)) = last (y # ts) - y" by simp
    with True show ?thesis by simp
  next
    case False
    have "sum_list (gaps_from_epoch (y # ts)) \<le> max 0 (last (y # ts))"
    proof (cases "0 \<le> y")
      case True
      with IH have "sum_list (gaps_from_epoch (y # ts)) = last (y # ts) - y" by simp
      with True show ?thesis by simp
    next
      case False
      with IH show ?thesis by simp
    qed
    with False show ?thesis by simp
  qed
qed

lemma sum_list_gaps_from_epoch_le:
  assumes "sorted_wrt (<) ts" and "\<forall>t\<in>set ts. t < B" and "0 < B"
  shows "sum_list (gaps_from_epoch ts) < B"
proof (cases ts)
  case Nil
  with assms show ?thesis by simp
next
  case (Cons x r)
  have l: "last (x # r) < B" using assms(2) Cons last_in_set [of "x # r"] by blast
  from sum_list_gaps_from_epoch [of x r] assms(1) Cons
  have "(0 \<le> x \<longrightarrow> sum_list (gaps_from_epoch (x # r)) = last (x # r) - x) \<and>
     (x < 0 \<longrightarrow> sum_list (gaps_from_epoch (x # r)) \<le> max 0 (last (x # r)))" by simp
  with l assms(3) have "sum_list (gaps_from_epoch (x # r)) < B"
    by (cases "0 \<le> x") auto
  with Cons show ?thesis by simp
qed

lemma overage_bounds:
  "\<forall>g\<in>set G. (0::int) \<le> g \<Longrightarrow>
     0 \<le> sum_list (map (\<lambda>g. g - c) (filter (\<lambda>g. c \<le> g) G)) \<and>
     sum_list (map (\<lambda>g. g - c) (filter (\<lambda>g. c \<le> g) G)) + c * int (length (filter (\<lambda>g. c \<le> g) G))
       \<le> sum_list G"
  by (induction G) (auto simp: algebra_simps)

lemma sint_deltas_sorted:
  "sorted_wrt (<) (map (\<lambda>b. sint (time b)) bs) \<Longrightarrow>
   (0 \<le> sint l \<longrightarrow> (\<forall>b\<in>set bs. sint l < sint (time b))) \<Longrightarrow>
   map sint (deltas l bs) = gaps_from_epoch (sint l # map (\<lambda>b. sint (time b)) bs)"
proof (induction bs arbitrary: l)
  case Nil
  show ?case by simp
next
  case (Cons b bs)
  from Cons.prems(1) have tl: "sorted_wrt (<) (map (\<lambda>b. sint (time b)) bs)"
    and hd: "\<forall>c\<in>set bs. sint (time b) < sint (time c)" by auto
  have IH: "map sint (deltas (time b) bs) = gaps_from_epoch (sint (time b) # map (\<lambda>b. sint (time b)) bs)"
    using Cons.IH [OF tl, of "time b"] hd by simp
  show ?case
  proof (cases "0 \<le> sint l")
    case True
    with Cons.prems(2) have "sint l \<le> sint (time b)" by simp
    with True have "sint (time b - l) = sint (time b) - sint l" by (rule sint_diff_nonneg)
    with True IH show ?thesis by simp
  next
    case False
    with IH show ?thesis by simp
  qed
qed

lemma index_times:
  assumes "index_ok s"
  shows "map (\<lambda>b. sint (time b)) (map snd (blocksByTime s)) = map (\<lambda>e. sint (fst e)) (blocksByTime s)"
    and "sorted_wrt (<) (map (\<lambda>e. sint (fst e)) (blocksByTime s))"
proof -
  from assms have t: "\<forall>e\<in>set (blocksByTime s). time (snd e) = fst e"
    and so: "sorted_wrt lt_qint64 (map fst (blocksByTime s))"
    by (simp_all add: index_ok_def)
  from t show "map (\<lambda>b. sint (time b)) (map snd (blocksByTime s)) = map (\<lambda>e. sint (fst e)) (blocksByTime s)"
    by simp
  from so show "sorted_wrt (<) (map (\<lambda>e. sint (fst e)) (blocksByTime s))"
    by (simp add: sorted_wrt_map lt_qint64_def)
qed

lemma sint_deltas_index:
  assumes "index_ok s"
  shows "map sint (deltas (- 1) (map snd (blocksByTime s)))
           = gaps_from_epoch (map (\<lambda>e. sint (fst e)) (blocksByTime s))"
proof -
  have "sorted_wrt (<) (map (\<lambda>b. sint (time b)) (map snd (blocksByTime s)))"
    unfolding index_times(1) [OF assms] by (rule index_times(2) [OF assms])
  then have "map sint (deltas (- 1) (map snd (blocksByTime s)))
          = gaps_from_epoch (sint (- 1 :: qint64) # map (\<lambda>b. sint (time b)) (map snd (blocksByTime s)))"
    by (rule sint_deltas_sorted) simp
  then show ?thesis
    unfolding index_times(1) [OF assms] by (simp add: gaps_from_epoch_minus1)
qed

lemma computeStats_returns:
  assumes "index_ok s"
  shows "\<exists>a. computeStats LONG_MAX s = Inr a"
proof -
  let ?ds = "deltas (- 1) (map snd (blocksByTime s))"
  have "\<forall>g\<in>set (map sint ?ds). 0 < g"
    unfolding sint_deltas_index [OF assms]
    using index_times(2) [OF assms] by (rule gaps_from_epoch_pos)
  then have "\<not> (\<exists>d\<in>set ?ds. sint d < 0)" by fastforce
  then have "\<not> (\<exists>e. computeStats LONG_MAX s = Inl e)"
    using statsLoop_fails_iff
      [of "nBlocks_of s" "map snd (blocksByTime s)" "statsInit LONG_MAX (nDupeTimes s)"]
    by (simp add: computeStats_def statsInit_def)
  then show ?thesis by (cases "computeStats LONG_MAX s") auto
qed

lemma computeStats_avg:
  assumes "index_ok s" and "computeStats LONG_MAX s = Inr a"
  shows "avg a = avg_sum (if nBlocks_of s > 0 then nBlocks_of s else 1) (D_lit 0)
                   (gaps_from_epoch (map (\<lambda>e. sint (fst e)) (blocksByTime s)))"
  using statsLoop_avg [OF assms(2) [unfolded computeStats_def]] sint_deltas_index [OF assms(1)]
  by (simp add: statsInit_def)

section \<open>Sums in 64 bits\<close>

lemma sum_overage_word:
  "sum_list (map (\<lambda>d. d - mycutoff) fs) = (word_of_int (sum_list (map (\<lambda>d. sint d - 450) fs)) :: qint64)"
  by (induction fs) (simp_all add: mycutoff_def)

lemma sint_mycutoff: "sint mycutoff = 450"
  by (simp add: mycutoff_def)

lemma sint_of_nat_in_range:
  assumes "int n < 2 ^ 63"
  shows "sint (of_nat n :: qint64) = int n"
proof -
  have "(of_nat n :: qint64) = word_of_int (int n)" by simp
  then show ?thesis using sint_of_int_in_range [of "int n"] assms by simp
qed

lemma filter_map_sint:
  "map sint (filter (\<lambda>d. c \<le> sint d) ds) = filter (\<lambda>g. c \<le> g) (map sint ds)"
  by (induction ds) simp_all

lemma pass_deltas_index:
  assumes "index_ok s"
  shows "pass_deltas s = gaps_from_epoch (timestamps s)"
    and "\<forall>g\<in>set (pass_deltas s). 0 < g"
    and "sum_list (pass_deltas s) < 2 ^ 63"
proof -
  show eq: "pass_deltas s = gaps_from_epoch (timestamps s)"
    unfolding pass_deltas_def timestamps_def by (rule sint_deltas_index [OF assms])
  have so: "sorted_wrt (<) (timestamps s)"
    unfolding timestamps_def by (rule index_times(2) [OF assms])
  show "\<forall>g\<in>set (pass_deltas s). 0 < g"
    unfolding eq using so by (rule gaps_from_epoch_pos)
  have "\<forall>t\<in>set (timestamps s). t < 2 ^ 63"
  proof
    fix t assume "t \<in> set (timestamps s)"
    then obtain e :: "qint64 \<times> Block" where "t = sint (fst e)" by (auto simp: timestamps_def)
    then show "t < 2 ^ 63" using sint_lt [of "fst e"] by simp
  qed
  with so show "sum_list (pass_deltas s) < 2 ^ 63"
    unfolding eq by (rule sum_list_gaps_from_epoch_le) simp
qed

lemma computeStats_cutoff:
  assumes ok: "index_ok s" and c: "computeStats LONG_MAX s = Inr a"
  shows "sint (cutoffdeltasums a) = sum_list (map (\<lambda>g. g - 450) (filter (\<lambda>g. 450 \<le> g) (pass_deltas s)))"
    and "sint (nsums a) = int (length (filter (\<lambda>g. 450 \<le> g) (pass_deltas s)))"
proof -
  let ?ds = "deltas (- 1) (map snd (blocksByTime s))"
  let ?F = "filter (\<lambda>d. sint mycutoff \<le> sint d) ?ds"
  let ?G = "filter (\<lambda>g. 450 \<le> g) (pass_deltas s)"
  have FG: "map sint ?F = ?G"
    unfolding pass_deltas_def sint_mycutoff by (rule filter_map_sint)
  have nn: "\<forall>g\<in>set (pass_deltas s). 0 \<le> g"
    using pass_deltas_index(2) [OF ok] by fastforce
  from overage_bounds [OF nn, of 450] pass_deltas_index(3) [OF ok]
  have b: "0 \<le> sum_list (map (\<lambda>g. g - 450) ?G)" "sum_list (map (\<lambda>g. g - 450) ?G) < 2 ^ 63"
    and n: "int (length ?G) < 2 ^ 63"
    by auto
  have "sum_list (map (\<lambda>d. sint d - 450) ?F) = sum_list (map (\<lambda>g. g - 450) (map sint ?F))"
    by (simp add: comp_def)
  then have su: "sum_list (map (\<lambda>d. sint d - 450) ?F) = sum_list (map (\<lambda>g. g - 450) ?G)"
    unfolding FG .
  have "cutoffdeltasums a = sum_list (map (\<lambda>d. d - mycutoff) ?F)"
    using statsLoop_cutoffdeltasums [OF c [unfolded computeStats_def]]
    by (simp add: statsInit_def)
  then have "cutoffdeltasums a = word_of_int (sum_list (map (\<lambda>g. g - 450) ?G))"
    unfolding sum_overage_word su .
  then show "sint (cutoffdeltasums a) = sum_list (map (\<lambda>g. g - 450) ?G)"
    using sint_of_int_in_range [of "sum_list (map (\<lambda>g. g - 450) ?G)"] b by simp
  have "length ?F = length ?G" using arg_cong [OF FG, of length] by simp
  moreover have "nsums a = of_nat (length ?F)"
    using statsLoop_nsums [OF c [unfolded computeStats_def]]
    by (simp add: statsInit_def)
  ultimately have "nsums a = of_nat (length ?G)" by simp
  then show "sint (nsums a) = int (length ?G)"
    using sint_of_nat_in_range [OF n] by simp
qed

lemma computeStats_overage:
  assumes "index_ok s" and "computeStats LONG_MAX s = Inr a"
  shows "sint (cutoffdeltasums a) = overage_sum (pass_deltas s)"
    and "sint (nsums a) = overage_count (pass_deltas s)"
  unfolding overage_sum_def overage_count_def
  by (rule computeStats_cutoff [OF assms])+

section \<open>What the run prints after the pass\<close>

lemma printStatsAndExit_console:
  assumes "computeStats LONG_MAX s = Inr a"
  shows "\<exists>rest. exit_console (printStatsAndExit LONG_MAX canOpen s) =
           console s @ [Log_Got (nBlocks_of s) (days_of s)] @ statsLines a @ rest"
  using assms
  by (cases "saveCsv canOpen s" rule: prod_cases3)
     (auto simp: printStatsAndExit_def Log_def Let_def split: option.splits)

text \<open>
  Claim C8, amended. On an object whose indexes are in order the statistics pass
  returns, and the run prints, after the block count line and the average line, the
  line of the cutoff statistic, whatever happens to the files afterwards. Its second
  argument is the \<open>double\<close> quotient of \<open>cutoffdeltasums\<close> by \<open>nsums\<close>, divided by
  \<open>60.\<close> for minutes. \<open>cutoffdeltasums\<close> is, as a signed number and without overflow,
  the sum of \<open>delta - 450\<close> over the deltas of the pass that are at least 450, and
  \<open>nsums\<close> is the number of those deltas; a delta below 450 adds to neither. The
  deltas of the pass are the gaps between consecutive timestamps of the index that
  follow a timestamp \<open>\<ge> 0\<close>, the loop computing a delta only when \<open>last > -1\<close>: all
  the gaps when no timestamp is negative.
\<close>

theorem cutoff_statistic:
  assumes "index_ok s"
  shows "\<exists>a rest.
           computeStats LONG_MAX s = Inr a \<and>
           sint (cutoffdeltasums a) = overage_sum (pass_deltas s) \<and>
           sint (nsums a) = overage_count (pass_deltas s) \<and>
           exit_console (printStatsAndExit LONG_MAX canOpen s) =
             console s @
             [Log_Got (nBlocks_of s) (days_of s),
              Log_AvgTime (D_div (avg a) (D_lit 60)) (D_div (D_int (sint (min' a))) (D_lit 60))
                (D_div (D_int (sint (max' a))) (D_lit 60)),
              Log_CraigVsPeterR (D_div (D_int 450) (D_lit 60))
                (D_div (D_div (D_int (overage_sum (pass_deltas s)))
                              (D_int (overage_count (pass_deltas s))))
                       (D_lit 60))] @ rest \<and>
           pass_deltas s = gaps_from_epoch (timestamps s) \<and>
           ((\<forall>t\<in>set (timestamps s). 0 \<le> t) \<longrightarrow> pass_deltas s = gaps (timestamps s))"
proof -
  from computeStats_returns [OF assms] obtain a where c: "computeStats LONG_MAX s = Inr a" ..
  note su = computeStats_overage(1) [OF assms c] and ns = computeStats_overage(2) [OF assms c]
  from printStatsAndExit_console [OF c, of canOpen] obtain rest where
    "exit_console (printStatsAndExit LONG_MAX canOpen s) =
           console s @ [Log_Got (nBlocks_of s) (days_of s)] @ statsLines a @ rest" ..
  then have con: "exit_console (printStatsAndExit LONG_MAX canOpen s) =
             console s @
             [Log_Got (nBlocks_of s) (days_of s),
              Log_AvgTime (D_div (avg a) (D_lit 60)) (D_div (D_int (sint (min' a))) (D_lit 60))
                (D_div (D_int (sint (max' a))) (D_lit 60)),
              Log_CraigVsPeterR (D_div (D_int 450) (D_lit 60))
                (D_div (D_div (D_int (overage_sum (pass_deltas s)))
                              (D_int (overage_count (pass_deltas s))))
                       (D_lit 60))] @ rest"
    by (simp add: statsLines_def su ns sint_mycutoff)
  have g: "(\<forall>t\<in>set (timestamps s). 0 \<le> t) \<longrightarrow> pass_deltas s = gaps (timestamps s)"
    unfolding pass_deltas_index(1) [OF assms] by (auto intro: gaps_from_epoch_gaps)
  from c su ns con pass_deltas_index(1) [OF assms] g show ?thesis by blast
qed

text \<open>
  Claim C9. On an object whose indexes are in order the statistics pass returns, every
  delta of the pass is positive, and the run prints the average line after the block
  count line, whatever happens to the files afterwards. When the duplicate-timestamp
  counter is not zero, \<open>min\<close> starts at 0 and ends at 0, and the line reports the
  minimum \<open>0/60.\<close>, which is 0, whatever the deltas are. When the counter is zero and
  the pass computes no delta, \<open>min\<close> ends at its initial value \<open>LONG_MAX\<close>, and
  the line reports \<open>LONG_MAX/60.\<close>, the sentinel converted to \<open>double\<close> and shown
  in minutes.
\<close>

theorem minimum_delta_report:
  assumes "index_ok s"
  shows "\<exists>a cr rest.
           computeStats LONG_MAX s = Inr a \<and>
           (\<forall>g\<in>set (pass_deltas s). 0 < g) \<and>
           (nDupeTimes s \<noteq> 0 \<longrightarrow>
              min' a = 0 \<and>
              exit_console (printStatsAndExit LONG_MAX canOpen s) =
                console s @
                [Log_Got (nBlocks_of s) (days_of s),
                 Log_AvgTime (D_div (avg a) (D_lit 60)) (D_div (D_int 0) (D_lit 60))
                   (D_div (D_int (sint (max' a))) (D_lit 60)),
                 cr] @ rest \<and>
              exact_value (D_div (D_int 0) (D_lit 60)) = Some 0) \<and>
           (nDupeTimes s = 0 \<and> pass_deltas s = [] \<longrightarrow>
              min' a = LONG_MAX \<and>
              exit_console (printStatsAndExit LONG_MAX canOpen s) =
                console s @
                [Log_Got (nBlocks_of s) (days_of s),
                 Log_AvgTime (D_div (avg a) (D_lit 60)) (D_div (D_int (sint LONG_MAX)) (D_lit 60))
                   (D_div (D_int (sint (max' a))) (D_lit 60)),
                 cr] @ rest)"
proof -
  from computeStats_returns [OF assms] obtain a where c: "computeStats LONG_MAX s = Inr a" ..
  note l = c [unfolded computeStats_def]
  from printStatsAndExit_console [OF c, of canOpen] obtain rest where
    "exit_console (printStatsAndExit LONG_MAX canOpen s) =
           console s @ [Log_Got (nBlocks_of s) (days_of s)] @ statsLines a @ rest" ..
  then have con: "exit_console (printStatsAndExit LONG_MAX canOpen s) =
             console s @
             [Log_Got (nBlocks_of s) (days_of s),
              Log_AvgTime (D_div (avg a) (D_lit 60)) (D_div (D_int (sint (min' a))) (D_lit 60))
                (D_div (D_int (sint (max' a))) (D_lit 60)),
              statsLines a ! 1] @ rest"
    by (simp add: statsLines_def)
  have d: "nDupeTimes s \<noteq> 0 \<longrightarrow>
              min' a = 0 \<and>
              exit_console (printStatsAndExit LONG_MAX canOpen s) =
                console s @
                [Log_Got (nBlocks_of s) (days_of s),
                 Log_AvgTime (D_div (avg a) (D_lit 60)) (D_div (D_int 0) (D_lit 60))
                   (D_div (D_int (sint (max' a))) (D_lit 60)),
                 statsLines a ! 1] @ rest \<and>
              exact_value (D_div (D_int 0) (D_lit 60)) = Some 0"
  proof
    assume "nDupeTimes s \<noteq> 0"
    then have "min' (statsInit LONG_MAX (nDupeTimes s)) = 0" by (simp add: statsInit_def)
    with l have "min' a = 0" by (rule statsLoop_min_zero)
    with con show "min' a = 0 \<and>
              exit_console (printStatsAndExit LONG_MAX canOpen s) =
                console s @
                [Log_Got (nBlocks_of s) (days_of s),
                 Log_AvgTime (D_div (avg a) (D_lit 60)) (D_div (D_int 0) (D_lit 60))
                   (D_div (D_int (sint (max' a))) (D_lit 60)),
                 statsLines a ! 1] @ rest \<and>
              exact_value (D_div (D_int 0) (D_lit 60)) = Some 0"
      by simp
  qed
  have n: "nDupeTimes s = 0 \<and> pass_deltas s = [] \<longrightarrow>
              min' a = LONG_MAX \<and>
              exit_console (printStatsAndExit LONG_MAX canOpen s) =
                console s @
                [Log_Got (nBlocks_of s) (days_of s),
                 Log_AvgTime (D_div (avg a) (D_lit 60)) (D_div (D_int (sint LONG_MAX)) (D_lit 60))
                   (D_div (D_int (sint (max' a))) (D_lit 60)),
                 statsLines a ! 1] @ rest"
  proof
    assume a: "nDupeTimes s = 0 \<and> pass_deltas s = []"
    then have "deltas (last' (statsInit LONG_MAX (nDupeTimes s))) (map snd (blocksByTime s)) = []"
      by (simp add: pass_deltas_def statsInit_def)
    with l have "min' a = min' (statsInit LONG_MAX (nDupeTimes s))" by (rule statsLoop_min_same)
    with a have "min' a = LONG_MAX" by (simp add: statsInit_def)
    with con show "min' a = LONG_MAX \<and>
              exit_console (printStatsAndExit LONG_MAX canOpen s) =
                console s @
                [Log_Got (nBlocks_of s) (days_of s),
                 Log_AvgTime (D_div (avg a) (D_lit 60)) (D_div (D_int (sint LONG_MAX)) (D_lit 60))
                   (D_div (D_int (sint (max' a))) (D_lit 60)),
                 statsLines a ! 1] @ rest"
      by simp
  qed
  from c pass_deltas_index(2) [OF assms] d n show ?thesis by blast
qed

text \<open>
  Claim C6. Let the by-time list hold, at any position, a block whose time is above
  \<open>-1\<close> followed by a block for which the delta is negative. Then the statistics
  pass ends in the fatal error of a negative delta, and the process exits with status 1:
  the console ends with the block count line and the fatal line, neither statistics
  line is printed, and no file is written.
\<close>

theorem negative_delta_aborts:
  assumes "Suc i < length (blocksByTime s)"
    and "- 1 < sint (time (snd (blocksByTime s ! i)))"
    and "sint (time (snd (blocksByTime s ! Suc i)) - time (snd (blocksByTime s ! i))) < 0"
  shows "\<exists>h d. sint d < 0 \<and>
           computeStats LONG_MAX s = Inl (Fatal_NegativeDelta h d) \<and>
           printStatsAndExit LONG_MAX canOpen s =
             \<lparr>exit_status = 1,
              exit_console = console s @ [Log_Got (nBlocks_of s) (days_of s),
                                          Log_Fatal (Fatal_NegativeDelta h d)],
              exit_files = []\<rparr>"
proof -
  let ?bs = "map snd (blocksByTime s)"
  let ?d = "time (?bs ! Suc i) - time (?bs ! i)"
  from assms have "?d \<in> set (deltas (- 1) ?bs)"
    by (intro delta_in_deltas) simp_all
  moreover from assms have "sint ?d < 0" by simp
  ultimately have "\<exists>d\<in>set (deltas (last' (statsInit LONG_MAX (nDupeTimes s))) ?bs). sint d < 0"
    by (auto simp: statsInit_def)
  then obtain e where e: "computeStats LONG_MAX s = Inl e"
    unfolding computeStats_def
    using statsLoop_fails_iff [of "nBlocks_of s" ?bs "statsInit LONG_MAX (nDupeTimes s)"] by blast
  from statsLoop_Inl [OF e [unfolded computeStats_def]]
  obtain h d where hd: "e = Fatal_NegativeDelta h d" "sint d < 0" by blast
  have "printStatsAndExit LONG_MAX canOpen s =
             \<lparr>exit_status = 1,
              exit_console = console s @ [Log_Got (nBlocks_of s) (days_of s),
                                          Log_Fatal (Fatal_NegativeDelta h d)],
              exit_files = []\<rparr>"
    using e hd(1) by (simp add: printStatsAndExit_def Log_def Let_def)
  with e hd show ?thesis by blast
qed

section \<open>The example objects\<close>

lemma ex_after_dupe_eq: "processResults (JsonObject (Some ex_page_dupe)) ex_start = Inr ex_after_dupe"
  by (simp add: ex_page_dupe_def ex_record_def ex_start_eq ex_after_dupe_def readBlock_def
      insertBlock_def Log_def Let_def lt_uint_def lt_qint64_def)

lemma ex_after_single_eq:
  "processResults (JsonObject (Some ex_page_single)) ex_start = Inr ex_after_single"
  by (simp add: ex_page_single_def ex_record_def ex_start_eq ex_after_single_def readBlock_def
      insertBlock_def Log_def Let_def lt_uint_def lt_qint64_def)

lemma ex_after_three_eq:
  "processResults (JsonObject (Some (map BlockObject ex_three))) ex_start = Inr ex_after_three"
  by (simp add: ex_three_def ex_record_def ex_start_eq ex_after_three_def readBlock_def
      insertBlock_def Log_def Let_def lt_uint_def lt_qint64_def)

lemma index_ok_ex_start: "index_ok ex_start"
  by (simp add: ex_start_eq index_ok_def)

lemma index_ok_ex_after_dupe: "index_ok ex_after_dupe"
  using index_ok_ex_start ex_after_dupe_eq by (rule index_ok_processResults)

lemma index_ok_ex_after_single: "index_ok ex_after_single"
  using index_ok_ex_start ex_after_single_eq by (rule index_ok_processResults)

lemma index_ok_ex_after_three: "index_ok ex_after_three"
  using index_ok_ex_start ex_after_three_eq by (rule index_ok_processResults)

lemma pass_deltas_ex_after_three: "pass_deltas ex_after_three = [600, 300]"
  by (simp add: pass_deltas_def ex_after_three_def)

lemma pass_deltas_ex_after_dupe: "pass_deltas ex_after_dupe = [600]"
  by (simp add: pass_deltas_def ex_after_dupe_def)

lemma pass_deltas_ex_after_single: "pass_deltas ex_after_single = []"
  by (simp add: pass_deltas_def ex_after_single_def)

lemma ex_after_negative_eq:
  "processResults (JsonObject (Some ex_page_negative)) ex_start = Inr ex_after_negative"
  by (simp add: ex_page_negative_def ex_record_def ex_start_eq ex_after_negative_def readBlock_def
      insertBlock_def Log_def Let_def lt_uint_def lt_qint64_def)

theorem cutoff_statistic_witness:
  "index_ok ex_after_three \<and> pass_deltas ex_after_three = [600, 300] \<and>
   (\<exists>a rest.
      computeStats LONG_MAX_64 ex_after_three = Inr a \<and>
      sint (cutoffdeltasums a) = 150 \<and> sint (nsums a) = 1 \<and>
      exit_console (printStatsAndExit LONG_MAX_64 (\<lambda>f. True) ex_after_three) =
        console ex_after_three @
        [Log_Got (nBlocks_of ex_after_three) (days_of ex_after_three),
         Log_AvgTime (D_div (avg a) (D_lit 60)) (D_div (D_int (sint (min' a))) (D_lit 60))
           (D_div (D_int (sint (max' a))) (D_lit 60)),
         Log_CraigVsPeterR (D_div (D_int 450) (D_lit 60))
           (D_div (D_div (D_int 150) (D_int 1)) (D_lit 60))] @ rest)"
proof -
  have o: "overage_sum [600, 300] = 150" "overage_count [600, 300] = 1"
    by (simp_all add: overage_sum_def overage_count_def)
  from cutoff_statistic [OF index_ok_ex_after_three, of LONG_MAX_64 "\<lambda>f. True"]
  have "\<exists>a rest.
      computeStats LONG_MAX_64 ex_after_three = Inr a \<and>
      sint (cutoffdeltasums a) = 150 \<and> sint (nsums a) = 1 \<and>
      exit_console (printStatsAndExit LONG_MAX_64 (\<lambda>f. True) ex_after_three) =
        console ex_after_three @
        [Log_Got (nBlocks_of ex_after_three) (days_of ex_after_three),
         Log_AvgTime (D_div (avg a) (D_lit 60)) (D_div (D_int (sint (min' a))) (D_lit 60))
           (D_div (D_int (sint (max' a))) (D_lit 60)),
         Log_CraigVsPeterR (D_div (D_int 450) (D_lit 60))
           (D_div (D_div (D_int 150) (D_int 1)) (D_lit 60))] @ rest"
    unfolding pass_deltas_ex_after_three o by blast
  with index_ok_ex_after_three pass_deltas_ex_after_three show ?thesis by blast
qed

text \<open>
  The claim as it stands fails on two blocks at \<open>-1\<close> and 899. Their gap is 900, so the
  claim has the sum 450 and the count 1. The loop never sees \<open>last > -1\<close> before the
  second block and computes no delta: the sum and the count stay 0, and the line
  reports \<open>0/0.\<close>.
\<close>

theorem cutoff_skips_gap_after_negative_time:
  "processResults (JsonObject (Some ex_page_negative)) ex_start = Inr ex_after_negative \<and>
   timestamps ex_after_negative = [- 1, 899] \<and>
   gaps (timestamps ex_after_negative) = [900] \<and>
   overage_sum (gaps (timestamps ex_after_negative)) = 450 \<and>
   overage_count (gaps (timestamps ex_after_negative)) = 1 \<and>
   computeStats LONG_MAX_64 ex_after_negative =
     Inr \<lparr>avg = D_lit 0, last' = 899, min' = 9223372036854775807, max' = - 1,
          cutoffdeltasums = 0, nsums = 0\<rparr> \<and>
   exit_console (printStatsAndExit LONG_MAX_64 (\<lambda>f. True) ex_after_negative) =
     [Log_Connecting 3, Log_Received 0 0,
      Log_Got 2 (D_div (D_div (D_div (D_int 900) (D_lit 60)) (D_lit 60)) (D_lit 24)),
      Log_AvgTime (D_div (D_lit 0) (D_lit 60)) (D_div (D_int 9223372036854775807) (D_lit 60))
        (D_div (D_int (- 1)) (D_lit 60)),
      Log_CraigVsPeterR (D_div (D_int 450) (D_lit 60))
        (D_div (D_div (D_int 0) (D_int 0)) (D_lit 60)),
      Log_Saved ''blocks_sorted_by_height.csv'' ''blocks_sorted_by_timestamp.csv'',
      Log_Done]"
proof -
  have 1: "timestamps ex_after_negative = [- 1, 899]"
    by (simp add: timestamps_def ex_after_negative_def)
  have 2: "gaps (timestamps ex_after_negative) = [900]" unfolding 1 by simp
  have 3: "overage_sum (gaps (timestamps ex_after_negative)) = 450"
    and 4: "overage_count (gaps (timestamps ex_after_negative)) = 1"
    unfolding 2 by (simp_all add: overage_sum_def overage_count_def)
  have 5: "computeStats LONG_MAX_64 ex_after_negative =
     Inr \<lparr>avg = D_lit 0, last' = 899, min' = 9223372036854775807, max' = - 1,
          cutoffdeltasums = 0, nsums = 0\<rparr>"
    by (simp add: computeStats_def ex_after_negative_def statsStep_def statsInit_def
        nBlocks_of_def LONG_MAX_64_def Let_def)
  have 6: "exit_console (printStatsAndExit LONG_MAX_64 (\<lambda>f. True) ex_after_negative) =
     [Log_Connecting 3, Log_Received 0 0,
      Log_Got 2 (D_div (D_div (D_div (D_int 900) (D_lit 60)) (D_lit 60)) (D_lit 24)),
      Log_AvgTime (D_div (D_lit 0) (D_lit 60)) (D_div (D_int 9223372036854775807) (D_lit 60))
        (D_div (D_int (- 1)) (D_lit 60)),
      Log_CraigVsPeterR (D_div (D_int 450) (D_lit 60))
        (D_div (D_div (D_int 0) (D_int 0)) (D_lit 60)),
      Log_Saved ''blocks_sorted_by_height.csv'' ''blocks_sorted_by_timestamp.csv'',
      Log_Done]"
    unfolding printStatsAndExit_def 5
    by (simp add: Let_def Log_def statsLines_def saveCsv_def mycutoff_def nBlocks_of_def
        days_of_def ex_after_negative_def fileNameA_def fileNameB_def)
  from ex_after_negative_eq 1 2 3 4 5 6 show ?thesis by blast
qed

theorem minimum_delta_report_witness:
  "index_ok ex_after_dupe \<and> nDupeTimes ex_after_dupe \<noteq> 0 \<and> pass_deltas ex_after_dupe = [600] \<and>
   (\<exists>a cr rest.
      computeStats LONG_MAX_64 ex_after_dupe = Inr a \<and> min' a = 0 \<and>
      exit_console (printStatsAndExit LONG_MAX_64 (\<lambda>f. True) ex_after_dupe) =
        console ex_after_dupe @
        [Log_Got (nBlocks_of ex_after_dupe) (days_of ex_after_dupe),
         Log_AvgTime (D_div (avg a) (D_lit 60)) (D_div (D_int 0) (D_lit 60))
           (D_div (D_int (sint (max' a))) (D_lit 60)),
         cr] @ rest) \<and>
   index_ok ex_after_single \<and> nDupeTimes ex_after_single = 0 \<and> pass_deltas ex_after_single = [] \<and>
   (\<exists>a cr rest.
      computeStats LONG_MAX_64 ex_after_single = Inr a \<and> min' a = LONG_MAX_64 \<and>
      exit_console (printStatsAndExit LONG_MAX_64 (\<lambda>f. True) ex_after_single) =
        console ex_after_single @
        [Log_Got (nBlocks_of ex_after_single) (days_of ex_after_single),
         Log_AvgTime (D_div (avg a) (D_lit 60)) (D_div (D_int 9223372036854775807) (D_lit 60))
           (D_div (D_int (sint (max' a))) (D_lit 60)),
         cr] @ rest)"
proof -
  have d: "nDupeTimes ex_after_dupe \<noteq> 0" by (simp add: ex_after_dupe_def)
  have z: "nDupeTimes ex_after_single = 0" by (simp add: ex_after_single_def)
  have lm: "sint LONG_MAX_64 = 9223372036854775807" by (simp add: LONG_MAX_64_def)
  from minimum_delta_report [OF index_ok_ex_after_dupe, of LONG_MAX_64 "\<lambda>f. True"] d
  have 1: "\<exists>a cr rest.
      computeStats LONG_MAX_64 ex_after_dupe = Inr a \<and> min' a = 0 \<and>
      exit_console (printStatsAndExit LONG_MAX_64 (\<lambda>f. True) ex_after_dupe) =
        console ex_after_dupe @
        [Log_Got (nBlocks_of ex_after_dupe) (days_of ex_after_dupe),
         Log_AvgTime (D_div (avg a) (D_lit 60)) (D_div (D_int 0) (D_lit 60))
           (D_div (D_int (sint (max' a))) (D_lit 60)),
         cr] @ rest"
    by blast
  from minimum_delta_report [OF index_ok_ex_after_single, of LONG_MAX_64 "\<lambda>f. True"]
    z pass_deltas_ex_after_single
  have 2: "\<exists>a cr rest.
      computeStats LONG_MAX_64 ex_after_single = Inr a \<and> min' a = LONG_MAX_64 \<and>
      exit_console (printStatsAndExit LONG_MAX_64 (\<lambda>f. True) ex_after_single) =
        console ex_after_single @
        [Log_Got (nBlocks_of ex_after_single) (days_of ex_after_single),
         Log_AvgTime (D_div (avg a) (D_lit 60)) (D_div (D_int 9223372036854775807) (D_lit 60))
           (D_div (D_int (sint (max' a))) (D_lit 60)),
         cr] @ rest"
    unfolding lm by blast
  from index_ok_ex_after_dupe d pass_deltas_ex_after_dupe 1
    index_ok_ex_after_single z pass_deltas_ex_after_single 2
  show ?thesis by blast
qed

theorem negative_delta_aborts_witness:
  "Suc 0 < length (blocksByTime ex_unordered) \<and>
   - 1 < sint (time (snd (blocksByTime ex_unordered ! 0))) \<and>
   sint (time (snd (blocksByTime ex_unordered ! Suc 0)) - time (snd (blocksByTime ex_unordered ! 0)))
     = - 600 \<and>
   (\<exists>h d. computeStats LONG_MAX_64 ex_unordered = Inl (Fatal_NegativeDelta h d)) \<and>
   exit_status (printStatsAndExit LONG_MAX_64 (\<lambda>f. True) ex_unordered) = 1 \<and>
   exit_files (printStatsAndExit LONG_MAX_64 (\<lambda>f. True) ex_unordered) = []"
proof -
  have 1: "Suc 0 < length (blocksByTime ex_unordered)"
    by (simp add: ex_unordered_def)
  have 2: "- 1 < sint (time (snd (blocksByTime ex_unordered ! 0)))"
    by (simp add: ex_unordered_def)
  have 3: "sint (time (snd (blocksByTime ex_unordered ! Suc 0))
             - time (snd (blocksByTime ex_unordered ! 0))) = - 600"
    by (simp add: ex_unordered_def)
  then have 4: "sint (time (snd (blocksByTime ex_unordered ! Suc 0))
             - time (snd (blocksByTime ex_unordered ! 0))) < 0"
    by simp
  from negative_delta_aborts [OF 1 2 4, of LONG_MAX_64 "\<lambda>f. True"]
  obtain h d where "computeStats LONG_MAX_64 ex_unordered = Inl (Fatal_NegativeDelta h d)"
    and "printStatsAndExit LONG_MAX_64 (\<lambda>f. True) ex_unordered =
             \<lparr>exit_status = 1,
              exit_console = console ex_unordered @ [Log_Got (nBlocks_of ex_unordered) (days_of ex_unordered),
                                          Log_Fatal (Fatal_NegativeDelta h d)],
              exit_files = []\<rparr>"
    by blast
  then have "(\<exists>h d. computeStats LONG_MAX_64 ex_unordered = Inl (Fatal_NegativeDelta h d)) \<and>
   exit_status (printStatsAndExit LONG_MAX_64 (\<lambda>f. True) ex_unordered) = 1 \<and>
   exit_files (printStatsAndExit LONG_MAX_64 (\<lambda>f. True) ex_unordered) = []"
    by auto
  with 1 2 3 show ?thesis by blast
qed

section \<open>Blocks with ascending times and distinct heights\<close>

lemma processElements_fresh_records:
  assumes "\<forall>j\<in>set js. main_record j"
    and "sorted_wrt (<) (map (\<lambda>j. sint (j_time j)) js)"
    and "distinct (map j_height js)"
    and "index_ok s"
    and "\<forall>e\<in>set (blocksByTime s). \<forall>j\<in>set js. sint (fst e) < sint (j_time j)"
    and "\<forall>j\<in>set js. j_height j \<notin> fst ` set (blocks s)"
  shows "\<exists>s'. processElements (map BlockObject js) s = Inr s' \<and>
           blocksByTime s' = blocksByTime s @ map (\<lambda>j. (j_time j, readBlock j)) js \<and>
           nDupeTimes s' = nDupeTimes s \<and>
           length (blocks s') = length (blocks s) + length js \<and>
           console s' = console s"
  using assms
proof (induction js arbitrary: s)
  case Nil
  show ?case by simp
next
  case (Cons j js)
  let ?b = "readBlock j"
  let ?s1 = "insertBlock ?b s"
  note slt = strict_linear_lt_qint64 and slu = strict_linear_lt_uint
  from Cons.prems(1) have m: "main_record j" and ms: "\<forall>j\<in>set js. main_record j" by simp_all
  from Cons.prems(2) have above: "\<forall>j'\<in>set js. sint (j_time j) < sint (j_time j')"
    and so: "sorted_wrt (<) (map (\<lambda>j. sint (j_time j)) js)" by simp_all
  from Cons.prems(3) have hnew: "j_height j \<notin> j_height ` set js"
    and di: "distinct (map j_height js)" by simp_all
  have below: "\<forall>x\<in>set (blocksByTime s). lt_qint64 (fst x) (j_time j)"
    using Cons.prems(5) by (simp add: lt_qint64_def)
  have nf: "qmap_find lt_qint64 (j_time j) (blocksByTime s) = None"
    using below by (rule qmap_find_None_above [OF slt])
  have bt1: "blocksByTime ?s1 = blocksByTime s @ [(j_time j, ?b)]"
    using qmap_insert_append [OF slt below] by (simp add: blocksByTime_insertBlock)
  have sorted_b: "sorted_wrt lt_uint (map fst (blocks s))"
    using Cons.prems(4) by (simp add: index_ok_def)
  have "j_height j \<notin> fst ` set (blocks s)" using Cons.prems(6) by simp
  then have nfh: "qmap_find lt_uint (j_height j) (blocks s) = None"
    using qmap_find_None_iff [OF slu sorted_b, of "j_height j"] by blast
  have nd1: "nDupeTimes ?s1 = nDupeTimes s" by (simp add: nDupeTimes_insertBlock nf)
  have c1: "console ?s1 = console s" by (simp add: console_insertBlock nf nfh)
  have len1: "length (blocks ?s1) = length (blocks s) + 1"
    by (simp add: blocks_insertBlock length_qmap_insert nfh)
  have keys1: "fst ` set (blocks ?s1) = insert (j_height j) (fst ` set (blocks s))"
    by (simp add: blocks_insertBlock keys_qmap_insert [OF slu])
  have ok1: "index_ok ?s1" using Cons.prems(4) by (rule index_ok_insertBlock)
  have p5: "\<forall>e\<in>set (blocksByTime ?s1). \<forall>j'\<in>set js. sint (fst e) < sint (j_time j')"
    unfolding bt1 using Cons.prems(5) above by auto
  have p6: "\<forall>j'\<in>set js. j_height j' \<notin> fst ` set (blocks ?s1)"
    unfolding keys1 using Cons.prems(6) hnew by (metis image_eqI insert_iff list.set_intros(2))
  from Cons.IH [OF ms so di ok1 p5 p6] obtain s' where
    r: "processElements (map BlockObject js) ?s1 = Inr s'"
       "blocksByTime s' = blocksByTime ?s1 @ map (\<lambda>j. (j_time j, readBlock j)) js"
       "nDupeTimes s' = nDupeTimes ?s1"
       "length (blocks s') = length (blocks ?s1) + length js"
       "console s' = console ?s1"
    by blast
  have "processElements (map BlockObject (j # js)) s = Inr s'"
    using r(1) processElement_main_record [OF m, of s] by simp
  moreover have "blocksByTime s' = blocksByTime s @ map (\<lambda>j. (j_time j, readBlock j)) (j # js)"
    unfolding r(2) bt1 by simp
  moreover have "nDupeTimes s' = nDupeTimes s" unfolding r(3) nd1 ..
  moreover have "length (blocks s') = length (blocks s) + length (j # js)"
    unfolding r(4) len1 by simp
  moreover have "console s' = console s" unfolding r(5) c1 ..
  ultimately show ?case by blast
qed

lemma appEntry_fresh:
  "snd (appEntry now (MainObj_new ndays dl nd)) =
     \<lparr>NDAYS = ndays, daysLeft = ndays, nDupeTimes = 0, blocks = [], blocksByTime = [],
      blocksByTimeMulti = [], console = [Log_Connecting ndays, Log_Received 0 0]\<rparr>"
  by (simp add: appEntry_def getNext_def MainObj_new_def Log_def Let_def)

text \<open>
  Claim C2, amended. From the object that \<open>appEntry\<close> leaves, main-chain records with
  strictly increasing times and distinct heights are all accepted (as a page, when there
  is at least one). The duplicate-timestamp counter is 0, \<open>nBlocks\<close> is the size of
  the by-time index, both indexes hold one entry per record, and no duplicate line is
  printed. The statistics pass returns, and its average is the sum of the gaps between
  consecutive timestamps divided by \<open>nBlocks\<close>, the number of blocks (by 1 when there
  is none), not by the number of gaps; a gap counts when the timestamp before it is
  \<open>\<ge> 0\<close>, which is every gap when no timestamp is negative. The average is a
  \<open>double\<close>, accumulated as \<open>avg += double(delta) / double(nBlocks)\<close> from \<open>0.\<close>;
  the quotient above is its value in exact arithmetic, without the rounding of floating
  point.
\<close>

theorem ascending_blocks_average:
  assumes "\<forall>j\<in>set js. main_record j"
    and "sorted_wrt (<) (map (\<lambda>j. sint (j_time j)) js)"
    and "distinct (map j_height js)"
  shows "\<exists>s a. processElements (map BlockObject js) (snd (appEntry now (MainObj_new ndays dl nd)))
                  = Inr s \<and>
           (js \<noteq> [] \<longrightarrow>
              processResults (JsonObject (Some (map BlockObject js)))
                (snd (appEntry now (MainObj_new ndays dl nd))) = Inr s) \<and>
           nDupeTimes s = 0 \<and>
           nBlocks_of s = int (length (blocksByTime s)) \<and>
           length (blocksByTime s) = length js \<and>
           length (blocks s) = length js \<and>
           console s = [Log_Connecting ndays, Log_Received 0 0] \<and>
           timestamps s = map (\<lambda>j. sint (j_time j)) js \<and>
           computeStats LONG_MAX s = Inr a \<and>
           avg a = avg_sum (max 1 (int (length js))) (D_lit 0) (gaps_from_epoch (timestamps s)) \<and>
           exact_value (avg a) =
             Some (of_int (sum_list (gaps_from_epoch (timestamps s)))
                     / of_int (max 1 (int (length js)))) \<and>
           ((\<forall>t\<in>set (timestamps s). 0 \<le> t) \<longrightarrow>
              exact_value (avg a) =
                Some (of_int (sum_list (gaps (timestamps s))) / of_int (max 1 (int (length js)))))"
proof -
  let ?s0 = "snd (appEntry now (MainObj_new ndays dl nd))"
  have ok0: "index_ok ?s0" by (simp add: appEntry_fresh index_ok_def)
  have e5: "\<forall>e\<in>set (blocksByTime ?s0). \<forall>j\<in>set js. sint (fst e) < sint (j_time j)"
    by (simp add: appEntry_fresh)
  have e6: "\<forall>j\<in>set js. j_height j \<notin> fst ` set (blocks ?s0)"
    by (simp add: appEntry_fresh)
  from processElements_fresh_records [OF assms ok0 e5 e6] obtain s where
    r: "processElements (map BlockObject js) ?s0 = Inr s"
       "blocksByTime s = blocksByTime ?s0 @ map (\<lambda>j. (j_time j, readBlock j)) js"
       "nDupeTimes s = nDupeTimes ?s0"
       "length (blocks s) = length (blocks ?s0) + length js"
       "console s = console ?s0"
    by blast
  have bt: "blocksByTime s = map (\<lambda>j. (j_time j, readBlock j)) js"
    unfolding r(2) by (simp add: appEntry_fresh)
  have nd: "nDupeTimes s = 0" unfolding r(3) by (simp add: appEntry_fresh)
  have lb: "length (blocks s) = length js" unfolding r(4) by (simp add: appEntry_fresh)
  have co: "console s = [Log_Connecting ndays, Log_Received 0 0]"
    unfolding r(5) by (simp add: appEntry_fresh)
  have lt: "length (blocksByTime s) = length js" unfolding bt by simp
  have nb: "nBlocks_of s = int (length (blocksByTime s))" by (simp add: nBlocks_of_def nd)
  have ts: "timestamps s = map (\<lambda>j. sint (j_time j)) js"
    unfolding timestamps_def bt by (simp add: comp_def)
  have pr: "js \<noteq> [] \<longrightarrow> processResults (JsonObject (Some (map BlockObject js))) ?s0 = Inr s"
    using r(1) by simp
  have ok: "index_ok s" using ok0 r(1) by (rule index_ok_processElements)
  from computeStats_returns [OF ok] obtain a where c: "computeStats LONG_MAX s = Inr a" ..
  have den: "(if nBlocks_of s > 0 then nBlocks_of s else 1) = max 1 (int (length js))"
    unfolding nb lt by (cases js) auto
  have ex: "avg a = avg_sum (max 1 (int (length js))) (D_lit 0) (gaps_from_epoch (timestamps s))"
    using computeStats_avg [OF ok c] unfolding den timestamps_def .
  have "max 1 (int (length js)) \<noteq> 0" by simp
  from exact_value_avg_sum [OF this, of "D_lit 0" 0 "gaps_from_epoch (timestamps s)"]
  have av: "exact_value (avg a) =
             Some (of_int (sum_list (gaps_from_epoch (timestamps s)))
                     / of_int (max 1 (int (length js))))"
    unfolding ex by simp
  have av': "(\<forall>t\<in>set (timestamps s). 0 \<le> t) \<longrightarrow>
              exact_value (avg a) =
                Some (of_int (sum_list (gaps (timestamps s))) / of_int (max 1 (int (length js))))"
    using av gaps_from_epoch_gaps [of "timestamps s"] by auto
  from r(1) pr nd nb lt lb co ts c ex av av' show ?thesis by blast
qed

theorem ascending_blocks_average_witness:
  "list_all main_record ex_three \<and>
   map j_time ex_three = [1500000000, 1500000600, 1500000900] \<and>
   map j_height ex_three = [1, 2, 3] \<and>
   (\<exists>s a. processResults (JsonObject (Some (map BlockObject ex_three))) ex_start = Inr s \<and>
          nDupeTimes s = 0 \<and> nBlocks_of s = 3 \<and> length (blocksByTime s) = 3 \<and>
          timestamps s = [1500000000, 1500000600, 1500000900] \<and>
          computeStats LONG_MAX_64 s = Inr a \<and>
          avg a = D_add (D_add (D_lit 0) (D_div (D_int 600) (D_int 3))) (D_div (D_int 300) (D_int 3)) \<and>
          exact_value (avg a) = Some 300)"
proof -
  have m: "\<forall>j\<in>set ex_three. main_record j"
    by (simp add: ex_three_def ex_record_def main_record_def)
  have t: "map j_time ex_three = [1500000000, 1500000600, 1500000900]"
    and h: "map j_height ex_three = [1, 2, 3]"
    by (simp_all add: ex_three_def ex_record_def)
  have so: "sorted_wrt (<) (map (\<lambda>j. sint (j_time j)) ex_three)"
    by (simp add: ex_three_def ex_record_def)
  have di: "distinct (map j_height ex_three)" unfolding h by simp
  have ne: "ex_three \<noteq> []" by (simp add: ex_three_def)
  from ascending_blocks_average [OF m so di, of 1500000000000 3 0 0 LONG_MAX_64]
  obtain s a where
    r: "processResults (JsonObject (Some (map BlockObject ex_three))) ex_start = Inr s"
       "nDupeTimes s = 0" "nBlocks_of s = int (length (blocksByTime s))"
       "length (blocksByTime s) = length ex_three"
       "timestamps s = map (\<lambda>j. sint (j_time j)) ex_three"
       "computeStats LONG_MAX_64 s = Inr a"
       "avg a = avg_sum (max 1 (int (length ex_three))) (D_lit 0) (gaps_from_epoch (timestamps s))"
       "exact_value (avg a) =
             Some (of_int (sum_list (gaps_from_epoch (timestamps s)))
                     / of_int (max 1 (int (length ex_three))))"
    unfolding ex_start_def [symmetric] using ne by blast
  have l: "length ex_three = 3" by (simp add: ex_three_def)
  have ts: "timestamps s = [1500000000, 1500000600, 1500000900]"
    unfolding r(5) by (simp add: ex_three_def ex_record_def)
  have e: "avg a = D_add (D_add (D_lit 0) (D_div (D_int 600) (D_int 3))) (D_div (D_int 300) (D_int 3))"
    unfolding r(7) ts l by simp
  have "exact_value (avg a) = Some 300" unfolding r(8) ts l by simp
  with r ts l e have "\<exists>s a. processResults (JsonObject (Some (map BlockObject ex_three))) ex_start = Inr s \<and>
          nDupeTimes s = 0 \<and> nBlocks_of s = 3 \<and> length (blocksByTime s) = 3 \<and>
          timestamps s = [1500000000, 1500000600, 1500000900] \<and>
          computeStats LONG_MAX_64 s = Inr a \<and>
          avg a = D_add (D_add (D_lit 0) (D_div (D_int 600) (D_int 3))) (D_div (D_int 300) (D_int 3)) \<and>
          exact_value (avg a) = Some 300"
    by auto
  with m t h show ?thesis by (simp add: list_all_iff)
qed

text \<open>
  The claim as it stands fails on three blocks at 1500000000, 1500000600 and 1500000900:
  the gaps are 600 and 300, their arithmetic mean is 450, and the pass computes
  \<open>0. + 600./3. + 300./3.\<close>, which is 300.
\<close>

theorem average_is_not_mean_of_gaps:
  "map main_record ex_three = [True, True, True] \<and>
   map j_time ex_three = [1500000000, 1500000600, 1500000900] \<and>
   map j_height ex_three = [1, 2, 3] \<and>
   processResults (JsonObject (Some (map BlockObject ex_three))) ex_start = Inr ex_after_three \<and>
   nDupeTimes ex_after_three = 0 \<and>
   timestamps ex_after_three = [1500000000, 1500000600, 1500000900] \<and>
   gaps (timestamps ex_after_three) = [600, 300] \<and>
   arithmetic_mean (gaps (timestamps ex_after_three)) = 450 \<and>
   computeStats LONG_MAX_64 ex_after_three =
     Inr \<lparr>avg = D_add (D_add (D_lit 0) (D_div (D_int 600) (D_int 3))) (D_div (D_int 300) (D_int 3)),
          last' = 1500000900, min' = 300, max' = 600, cutoffdeltasums = 150, nsums = 1\<rparr> \<and>
   exact_value (avg (projr (computeStats LONG_MAX_64 ex_after_three))) = Some 300 \<and>
   exact_value (avg (projr (computeStats LONG_MAX_64 ex_after_three)))
     \<noteq> Some (arithmetic_mean (gaps (timestamps ex_after_three)))"
proof -
  have 1: "map main_record ex_three = [True, True, True]"
    by (simp add: ex_three_def ex_record_def main_record_def)
  have 2: "map j_time ex_three = [1500000000, 1500000600, 1500000900]"
    and 3: "map j_height ex_three = [1, 2, 3]"
    by (simp_all add: ex_three_def ex_record_def)
  have 4: "nDupeTimes ex_after_three = 0" by (simp add: ex_after_three_def)
  have 5: "timestamps ex_after_three = [1500000000, 1500000600, 1500000900]"
    by (simp add: timestamps_def ex_after_three_def)
  have 6: "gaps (timestamps ex_after_three) = [600, 300]" unfolding 5 by simp
  have 7: "arithmetic_mean (gaps (timestamps ex_after_three)) = 450"
    unfolding 6 by (simp add: arithmetic_mean_def)
  have 8: "computeStats LONG_MAX_64 ex_after_three =
     Inr \<lparr>avg = D_add (D_add (D_lit 0) (D_div (D_int 600) (D_int 3))) (D_div (D_int 300) (D_int 3)),
          last' = 1500000900, min' = 300, max' = 600, cutoffdeltasums = 150, nsums = 1\<rparr>"
    by (simp add: computeStats_def ex_after_three_def statsStep_def statsInit_def nBlocks_of_def
        mycutoff_def LONG_MAX_64_def Let_def)
  have 9: "exact_value (avg (projr (computeStats LONG_MAX_64 ex_after_three))) = Some 300"
    unfolding 8 by simp
  have 10: "exact_value (avg (projr (computeStats LONG_MAX_64 ex_after_three)))
             \<noteq> Some (arithmetic_mean (gaps (timestamps ex_after_three)))"
    unfolding 7 9 by simp
  from 1 2 3 ex_after_three_eq 4 5 6 7 8 9 10 show ?thesis by blast
qed

end
